theory Spec2Isabelle
  imports Complex_Main "HOL-Library.AList" "HOL-Library.Char_ord" "HOL-Library.List_Lexorder"
begin

section \<open>Common ground: numbers, JSON values, process results\<close>

text \<open>
  Both tools compute with C++ \<^verbatim>\<open>double\<close>. The embedding takes \<^typ>\<open>real\<close> for it:
  every comparison and every branch of the source is kept, rounding is not modelled.
  The one place where IEEE arithmetic differs from the reals in a way that changes a
  branch (a division by zero) is written out where it occurs.
\<close>

definition tolerance :: real where
  "tolerance = 1 / 10 ^ 9"

text \<open>
  The values of \<^verbatim>\<open>nlohmann::json\<close> that the tools print. An object is kept as
  the list of its members; \<open>json_get\<close> reads a member by key.
\<close>

datatype json =
    JNull
  | JNum real
  | JStr string
  | JArr "json list"
  | JObj "(string \<times> json) list"

fun json_get :: "json \<Rightarrow> string \<Rightarrow> json option" where
  "json_get (JObj kvs) k = map_of kvs k"
| "json_get _ k = None"

fun json_set :: "json \<Rightarrow> string \<Rightarrow> json \<Rightarrow> json" where
  "json_set (JObj kvs) k v = JObj (AList.update k v kvs)"
| "json_set _ k v = JObj [(k, v)]"

text \<open>
  A braced initializer list \<^verbatim>\<open>{a, b, ...}\<close> given to \<^verbatim>\<open>json\<close>: when every
  element is a two-element array whose first element is a string, the library builds an
  object from the pairs; otherwise it builds an array. An empty pair of braces nested
  inside such a list is value-initialised, which is \<open>JNull\<close>.
\<close>

fun is_key_value :: "json \<Rightarrow> bool" where
  "is_key_value (JArr [JStr k, v]) = True"
| "is_key_value _ = False"

fun key_value :: "json \<Rightarrow> string \<times> json" where
  "key_value (JArr [JStr k, v]) = (k, v)"
| "key_value j = ([], j)"

definition json_init :: "json list \<Rightarrow> json" where
  "json_init xs = (if list_all is_key_value xs then JObj (map key_value xs) else JArr xs)"

text \<open>
  What a run of a tool leaves behind: the documents written to standard output, the lines
  written to standard error, how many times the external solver was asked to solve, and
  the value \<^verbatim>\<open>main\<close> returns.
\<close>

record effects =
  stdout :: "json list"
  stderr :: "string list"
  solver_runs :: nat

record process = effects +
  exit_code :: int

text \<open>
  Standard input, as \<^verbatim>\<open>std::cin >> input\<close> sees it: either the text is not JSON and
  the parser throws \<^verbatim>\<open>json::parse_error\<close> with a message, or it is a document with
  the members of the input schema.
\<close>

datatype 'd stdin = NotJson string | Document 'd

text \<open>\<^verbatim>\<open>std::map::operator[]\<close> on a missing key yields the value-initialised entry.\<close>

definition at_key :: "('k \<times> 'v) list \<Rightarrow> 'k \<Rightarrow> 'v \<Rightarrow> 'v" where
  "at_key m k dflt = (case map_of m k of Some v \<Rightarrow> v | None \<Rightarrow> dflt)"

definition count_key :: "('k \<times> 'v) list \<Rightarrow> 'k \<Rightarrow> bool" where
  "count_key m k = (k \<in> fst ` set m)"

section \<open>Belts with bounds\<close>

subsection \<open>Input model and the max-flow solver\<close>

record edge_data =
  edge_from :: string
  edge_to :: string
  lower_bound :: real
  upper_bound :: real

record Edge = edge_data +
  arc_index :: int

record belts_input =
  sources :: "(string \<times> real) list"
  sink :: string
  node_caps :: "(string \<times> real) list"
  edges :: "edge_data list"

text \<open>
  \<^verbatim>\<open>SimpleMaxFlow\<close>: arcs are numbered in the order they are added, from 0. Solving is
  not part of this repository; it is a parameter that maps the arcs, the source and the
  sink to a status, the flow value, the flow of every arc and the source side of a
  minimum cut.
\<close>

type_synonym arcs = "(nat \<times> nat \<times> real) list"

definition AddArcWithCapacity :: "nat \<Rightarrow> nat \<Rightarrow> real \<Rightarrow> arcs \<Rightarrow> int \<times> arcs" where
  "AddArcWithCapacity tail_node head_node capacity as =
     (int (length as), as @ [(tail_node, head_node, capacity)])"

definition NumArcs :: "arcs \<Rightarrow> nat" where
  "NumArcs as = length as"

definition NumNodes :: "arcs \<Rightarrow> nat" where
  "NumNodes as = fold (\<lambda>(tail_node, head_node, capacity) n. max n (max (tail_node + 1) (head_node + 1))) as 0"

definition Tail :: "arcs \<Rightarrow> nat \<Rightarrow> nat" where
  "Tail as i = fst (as ! i)"

definition Head :: "arcs \<Rightarrow> nat \<Rightarrow> nat" where
  "Head as i = fst (snd (as ! i))"

datatype flow_status = OPTIMAL | POSSIBLE_OVERFLOW | BAD_INPUT | BAD_RESULT

record flow_result =
  Solve :: flow_status
  OptimalFlow :: real
  Flow :: "int \<Rightarrow> real"
  GetSourceSideMinCut :: "nat list"

type_synonym flow_oracle = "arcs \<Rightarrow> nat \<Rightarrow> nat \<Rightarrow> flow_result"

subsection \<open>Node mapping\<close>

text \<open>\<^verbatim>\<open>std::set<std::string>\<close>: kept as the sorted list of its elements.\<close>

definition all_node_names :: "belts_input \<Rightarrow> string list" where
  "all_node_names inp =
     fold insort_insert
       (map fst (sources inp) @ [sink inp]
        @ concat (map (\<lambda>e. [edge_from e, edge_to e]) (edges inp))
        @ map fst (node_caps inp)) []"

record node_maps =
  node_index_counter :: nat
  node_to_in_index :: "(string \<times> nat) list"
  node_to_out_index :: "(string \<times> nat) list"
  index_to_name_map :: "string list"
  solver_arcs :: arcs

definition s_star :: nat where "s_star = 0"
definition t_star :: nat where "t_star = 1"

definition initial_maps :: node_maps where
  "initial_maps = \<lparr> node_index_counter = 2, node_to_in_index = [], node_to_out_index = [],
     index_to_name_map = [''s_star'', ''t_star''], solver_arcs = [] \<rparr>"

definition get_name_from_index :: "string list \<Rightarrow> nat \<Rightarrow> string" where
  "get_name_from_index names i = (if i < length names then names ! i else ''INVALID_INDEX'')"

definition is_split :: "belts_input \<Rightarrow> string \<Rightarrow> bool" where
  "is_split inp name \<longleftrightarrow>
     count_key (node_caps inp) name \<and> \<not> count_key (sources inp) name \<and> name \<noteq> sink inp"

definition add_node :: "belts_input \<Rightarrow> string \<Rightarrow> node_maps \<Rightarrow> node_maps" where
  "add_node inp name st =
     (let in_idx = node_index_counter st;
          st1 = st\<lparr> node_index_counter := in_idx + 1,
                    index_to_name_map := index_to_name_map st @ [name],
                    node_to_in_index := AList.update name in_idx (node_to_in_index st) \<rparr>
      in if is_split inp name then
           (let out_idx = node_index_counter st1
            in st1\<lparr> node_index_counter := out_idx + 1,
                    index_to_name_map := index_to_name_map st1 @ [name],
                    node_to_out_index := AList.update name out_idx (node_to_out_index st1),
                    solver_arcs := snd (AddArcWithCapacity in_idx out_idx
                                          (at_key (node_caps inp) name 0) (solver_arcs st1)) \<rparr>)
         else st1\<lparr> node_to_out_index := AList.update name in_idx (node_to_out_index st1) \<rparr>)"

definition build_nodes :: "belts_input \<Rightarrow> node_maps" where
  "build_nodes inp = fold (add_node inp) (all_node_names inp) initial_maps"

subsection \<open>The feasibility graph\<close>

text \<open>\<^verbatim>\<open>std::map<int, double> node_balance\<close>, kept sorted by index.\<close>

fun balance_add :: "nat \<Rightarrow> real \<Rightarrow> (nat \<times> real) list \<Rightarrow> (nat \<times> real) list" where
  "balance_add k d [] = [(k, 0 + d)]"
| "balance_add k d ((k', v) # m) =
     (if k = k' then (k', v + d) # m
      else if k < k' then (k, 0 + d) # (k', v) # m
      else (k', v) # balance_add k d m)"

definition total_supply :: "belts_input \<Rightarrow> real" where
  "total_supply inp = fold (\<lambda>(name, supply) acc. acc + supply) (sources inp) 0"

definition supply_balance :: "belts_input \<Rightarrow> node_maps \<Rightarrow> (nat \<times> real) list" where
  "supply_balance inp nm =
     balance_add (at_key (node_to_in_index nm) (sink inp) 0) (total_supply inp)
       (fold (\<lambda>(name, supply). balance_add (at_key (node_to_out_index nm) name 0) (- supply))
          (sources inp) [])"

definition precheck_result :: "real \<Rightarrow> edge_data \<Rightarrow> json" where
  "precheck_result total_demand_at_sink e =
     json_init
       [json_init [JStr ''status'', JStr ''infeasible''],
        json_init [JStr ''cut_reachable'', JNull],
        json_init [JStr ''deficit'',
          json_init
            [json_init [JStr ''demand_balance'', JNum total_demand_at_sink],
             json_init [JStr ''tight_nodes'', JNull],
             json_init [JStr ''tight_edges'',
               json_init
                 [json_init [JStr ''from'', JStr (edge_from e)],
                  json_init [JStr ''to'', JStr (edge_to e)],
                  json_init [JStr ''flow_needed'', JNum (upper_bound e - lower_bound e)]]]]]]"

record flow_graph =
  graph_arcs :: arcs
  node_balance :: "(nat \<times> real) list"
  original_edges :: "Edge list"

text \<open>
  The loop over the edges. It returns at the first edge with \<open>hi - lo < - tolerance\<close>,
  with the document it prints there; otherwise it adds the arc, records its index in the
  edge and shifts the balances of its two ends.
\<close>

fun add_edges :: "node_maps \<Rightarrow> real \<Rightarrow> edge_data list \<Rightarrow> flow_graph \<Rightarrow> json + flow_graph" where
  "add_edges nm total_demand_at_sink [] g = Inr g"
| "add_edges nm total_demand_at_sink (e # es) g =
     (let u = at_key (node_to_out_index nm) (edge_from e) 0;
          v = at_key (node_to_in_index nm) (edge_to e) 0;
          lo = lower_bound e;
          hi = upper_bound e
      in if hi - lo < - tolerance then Inl (precheck_result total_demand_at_sink e)
         else
           (let (idx, as) = AddArcWithCapacity u v (hi - lo) (graph_arcs g)
            in add_edges nm total_demand_at_sink es
                 \<lparr> graph_arcs = as,
                   node_balance = balance_add v lo (balance_add u (- lo) (node_balance g)),
                   original_edges = original_edges g @ [edge_data.extend e \<lparr> arc_index = idx \<rparr>] \<rparr>))"

text \<open>Arcs from \<open>s_star\<close> and to \<open>t_star\<close>, and the demand that \<open>s_star\<close> must send.\<close>

definition balance_arc :: "nat \<times> real \<Rightarrow> arcs \<times> real \<Rightarrow> arcs \<times> real" where
  "balance_arc = (\<lambda>(node_idx, balance) (as, total_demand_from_s_star).
     if balance > tolerance then
       (snd (AddArcWithCapacity s_star node_idx balance as), total_demand_from_s_star + balance)
     else if balance < - tolerance then
       (snd (AddArcWithCapacity node_idx t_star (- balance) as), total_demand_from_s_star)
     else (as, total_demand_from_s_star))"

definition balance_arcs :: "(nat \<times> real) list \<Rightarrow> arcs \<Rightarrow> arcs \<times> real" where
  "balance_arcs bal as = fold balance_arc bal (as, 0)"

subsection \<open>Solving, the certificate and the plan\<close>

definition solver_failure_result :: "real \<Rightarrow> json" where
  "solver_failure_result total_demand_from_s_star =
     json_init
       [json_init [JStr ''status'', JStr ''infeasible''],
        json_init [JStr ''cut_reachable'', JNull],
        json_init [JStr ''deficit'',
          json_init
            [json_init [JStr ''demand_balance'', JNum total_demand_from_s_star],
             json_init [JStr ''tight_nodes'', JNull],
             json_init [JStr ''tight_edges'', JNull]]]]"

definition reachable_nodes :: "string list \<Rightarrow> nat list \<Rightarrow> string list" where
  "reachable_nodes names cut_indices =
     fold (\<lambda>idx s. if idx \<noteq> s_star then insort_insert (get_name_from_index names idx) s else s)
       cut_indices []"

definition tight_edge_json :: "Edge \<Rightarrow> json" where
  "tight_edge_json e =
     json_init
       [json_init [JStr ''from'', JStr (edge_from e)],
        json_init [JStr ''to'', JStr (edge_to e)],
        json_init [JStr ''flow_needed'', JStr ''at capacity'']]"

text \<open>
  The body of the two nested loops over nodes \<open>u\<close> and arcs \<open>arc_idx\<close>: an arc that
  leaves \<open>u\<close> for a node outside the reachable names is reported as the original edge
  that owns it, or else as the node cap of \<open>u\<close>.
\<close>

definition cut_arc ::
  "belts_input \<Rightarrow> string list \<Rightarrow> arcs \<Rightarrow> Edge list \<Rightarrow> string list \<Rightarrow> nat \<Rightarrow> nat
     \<Rightarrow> string list \<times> json list \<Rightarrow> string list \<times> json list" where
  "cut_arc inp names as es reach u arc_idx = (\<lambda>(tight_nodes_set, tight_edges_json).
     if Tail as arc_idx = u then
       (let v = Head as arc_idx
        in if get_name_from_index names v \<notin> set reach then
             (case find (\<lambda>e. arc_index e = int arc_idx) es of
                Some e \<Rightarrow> (tight_nodes_set, tight_edges_json @ [tight_edge_json e])
              | None \<Rightarrow>
                  (let node_name = get_name_from_index names u
                   in if count_key (node_caps inp) node_name
                      then (insort_insert node_name tight_nodes_set, tight_edges_json)
                      else (tight_nodes_set, tight_edges_json)))
           else (tight_nodes_set, tight_edges_json))
     else (tight_nodes_set, tight_edges_json))"

definition tight_constraints ::
  "belts_input \<Rightarrow> string list \<Rightarrow> arcs \<Rightarrow> Edge list \<Rightarrow> string list
     \<Rightarrow> string list \<times> json list" where
  "tight_constraints inp names as es reach =
     fold (\<lambda>u acc.
             if get_name_from_index names u \<in> set reach
             then fold (cut_arc inp names as es reach u) [0 ..< NumArcs as] acc
             else acc)
       [0 ..< NumNodes as] ([], [])"

definition infeasible_result ::
  "belts_input \<Rightarrow> string list \<Rightarrow> arcs \<Rightarrow> Edge list \<Rightarrow> real \<Rightarrow> flow_result \<Rightarrow> json" where
  "infeasible_result inp names as es total_demand_from_s_star r =
     (let reach = reachable_nodes names (GetSourceSideMinCut r);
          (tight_nodes_set, tight_edges_json) = tight_constraints inp names as es reach
      in JObj
           [(''status'', JStr ''infeasible''),
            (''deficit'',
               JObj [(''demand_balance'', JNum (total_demand_from_s_star - OptimalFlow r)),
                     (''tight_nodes'', JArr (map JStr tight_nodes_set)),
                     (''tight_edges'', JArr tight_edges_json)]),
            (''cut_reachable'', JArr (map JStr reach))])"

definition final_flow :: "flow_result \<Rightarrow> Edge \<Rightarrow> real" where
  "final_flow r e = Flow r (arc_index e) + lower_bound e"

definition flow_json :: "flow_result \<Rightarrow> Edge \<Rightarrow> json" where
  "flow_json r e =
     json_init
       [json_init [JStr ''from'', JStr (edge_from e)],
        json_init [JStr ''to'', JStr (edge_to e)],
        json_init [JStr ''flow'', JNum (final_flow r e)]]"

definition ok_result :: "belts_input \<Rightarrow> Edge list \<Rightarrow> flow_result \<Rightarrow> json" where
  "ok_result inp es r =
     JObj
       [(''status'', JStr ''ok''),
        (''max_flow_per_min'', JNum (total_supply inp)),
        (''flows'', JArr (map (flow_json r) (filter (\<lambda>e. final_flow r e > tolerance) es)))]"

text \<open>
  \<open>solve_belts\<close>, from reading standard input to the single document it prints. The
  count \<open>solver_runs\<close> is 1 exactly on the paths that reach
  \<^verbatim>\<open>max_flow_solver.Solve(s_star, t_star)\<close>.
\<close>

definition empty_graph :: "node_maps \<Rightarrow> (nat \<times> real) list \<Rightarrow> flow_graph" where
  "empty_graph nm bal = \<lparr> graph_arcs = solver_arcs nm, node_balance = bal, original_edges = [] \<rparr>"

definition build_graph :: "belts_input \<Rightarrow> json + arcs \<times> real \<times> Edge list" where
  "build_graph inp =
     (let nm = build_nodes inp;
          total_demand_at_sink = total_supply inp
      in case add_edges nm total_demand_at_sink (edges inp)
                (empty_graph nm (supply_balance inp nm)) of
           Inl result \<Rightarrow> Inl result
         | Inr g \<Rightarrow>
             (let (as, total_demand_from_s_star) = balance_arcs (node_balance g) (graph_arcs g)
              in Inr (as, total_demand_from_s_star, original_edges g)))"

definition solve_belts :: "flow_oracle \<Rightarrow> belts_input stdin \<Rightarrow> effects" where
  "solve_belts oracle input =
     (case input of
        NotJson what \<Rightarrow>
          \<lparr> stdout = [], stderr = [''JSON parse error: '' @ what], solver_runs = 0 \<rparr>
      | Document inp \<Rightarrow>
          (case build_graph inp of
             Inl result \<Rightarrow> \<lparr> stdout = [result], stderr = [], solver_runs = 0 \<rparr>
           | Inr (as, total_demand_from_s_star, es) \<Rightarrow>
               (let r = oracle as s_star t_star
                in if Solve r \<noteq> OPTIMAL then
                     \<lparr> stdout = [solver_failure_result total_demand_from_s_star],
                       stderr = [], solver_runs = 1 \<rparr>
                   else if OptimalFlow r < total_demand_from_s_star - tolerance then
                     \<lparr> stdout = [infeasible_result inp (index_to_name_map (build_nodes inp)) as
                                   es total_demand_from_s_star r],
                       stderr = [], solver_runs = 1 \<rparr>
                   else
                     \<lparr> stdout = [ok_result inp es r], stderr = [], solver_runs = 1 \<rparr>)))"

text \<open>
  \<open>main\<close> of the belts tool: \<open>solve_belts\<close> raises nothing on a document of the
  input schema and catches the parse error itself, so control always reaches
  \<^verbatim>\<open>return 0\<close>.
\<close>

definition belts_main :: "flow_oracle \<Rightarrow> belts_input stdin \<Rightarrow> process" where
  "belts_main oracle input = effects.extend (solve_belts oracle input) \<lparr> exit_code = 0 \<rparr>"

section \<open>Factory steady state\<close>

subsection \<open>Input model and the LP solver\<close>

record recipe_json =
  json_machine :: string
  json_time_s :: real
  json_in :: "(string \<times> real) list"
  json_out :: "(string \<times> real) list"

record module_json =
  speed :: "real option"
  prod :: "real option"

text \<open>
  The members of the input document. \<open>machines\<close> gives each machine its
  \<^verbatim>\<open>crafts_per_min\<close>; an absent \<^verbatim>\<open>modules\<close>, \<^verbatim>\<open>in\<close> or \<^verbatim>\<open>out\<close> member is
  the empty list, which is how the source treats it.
\<close>

record factory_input =
  machines :: "(string \<times> real) list"
  modules :: "(string \<times> module_json) list"
  recipes :: "(string \<times> recipe_json) list"
  max_machines :: "(string \<times> real) list"
  raw_supply_per_min :: "(string \<times> real) list"
  target_item :: string
  requested_target_rate :: real

text \<open>
  The quotient of two doubles where the divisor may be zero: IEEE division gives an
  infinity or a NaN there, and the comparison that follows depends on which.
\<close>

datatype quotient = Finite real | PlusInf | MinusInf | NaN

definition ieee_div :: "real \<Rightarrow> real \<Rightarrow> quotient" where
  "ieee_div a b =
     (if b \<noteq> 0 then Finite (a / b)
      else if a > 0 then PlusInf else if a < 0 then MinusInf else NaN)"

record Recipe =
  recipe_name :: string
  machine :: string
  time_s :: real
  in_items :: "(string \<times> real) list"
  out_items :: "(string \<times> real) list"
  eff_crafts_per_min :: quotient
  machine_cost_per_craft :: real
  prod_mult :: real

text \<open>
  \<^verbatim>\<open>MPSolver\<close>: variables and row constraints are numbered in the order they are made;
  the maps of the source hold these numbers where the source holds pointers. A row keeps
  its bounds and its coefficients by variable; setting a coefficient replaces the one the
  row had for that variable.
\<close>

record MPVariable =
  var_lb :: real
  var_ub :: "real option"
  var_name :: string

record MPConstraint =
  row_lb :: real
  row_ub :: real
  row_name :: string
  coefficients :: "(nat \<times> real) list"

record MPSolver =
  variables :: "MPVariable list"
  constraints :: "MPConstraint list"
  objective :: "(nat \<times> real) list"
  maximization :: bool

definition CreateSolver :: MPSolver where
  "CreateSolver = \<lparr> variables = [], constraints = [], objective = [], maximization = False \<rparr>"

definition infinity :: "real option" where
  "infinity = None"

definition MakeNumVar :: "real \<Rightarrow> real option \<Rightarrow> string \<Rightarrow> MPSolver \<Rightarrow> nat \<times> MPSolver" where
  "MakeNumVar lb ub nm s =
     (length (variables s),
      s\<lparr> variables := variables s @ [\<lparr> var_lb = lb, var_ub = ub, var_name = nm \<rparr>] \<rparr>)"

definition MakeRowConstraint :: "real \<Rightarrow> real \<Rightarrow> string \<Rightarrow> MPSolver \<Rightarrow> nat \<times> MPSolver" where
  "MakeRowConstraint lb ub nm s =
     (length (constraints s),
      s\<lparr> constraints := constraints s
            @ [\<lparr> row_lb = lb, row_ub = ub, row_name = nm, coefficients = [] \<rparr>] \<rparr>)"

definition SetBounds :: "nat \<Rightarrow> real \<Rightarrow> real \<Rightarrow> MPSolver \<Rightarrow> MPSolver" where
  "SetBounds row lb ub s =
     s\<lparr> constraints := (constraints s)[row := (constraints s ! row)\<lparr> row_lb := lb, row_ub := ub \<rparr>] \<rparr>"

definition SetCoefficient :: "nat \<Rightarrow> nat \<Rightarrow> real \<Rightarrow> MPSolver \<Rightarrow> MPSolver" where
  "SetCoefficient row var c s =
     s\<lparr> constraints := (constraints s)[row := (constraints s ! row)
          \<lparr> coefficients := AList.update var c (coefficients (constraints s ! row)) \<rparr>] \<rparr>"

definition SetObjectiveCoefficient :: "nat \<Rightarrow> real \<Rightarrow> MPSolver \<Rightarrow> MPSolver" where
  "SetObjectiveCoefficient var c s = s\<lparr> objective := AList.update var c (objective s) \<rparr>"

definition SetMaximization :: "MPSolver \<Rightarrow> MPSolver" where
  "SetMaximization s = s\<lparr> maximization := True \<rparr>"

definition SetMinimization :: "MPSolver \<Rightarrow> MPSolver" where
  "SetMinimization s = s\<lparr> maximization := False \<rparr>"

text \<open>
  Solving is not part of this repository: it is a parameter that maps the model to a
  result status, a value for every variable, and a dual value and an activity for every
  row. The statuses are those of \<^verbatim>\<open>MPSolver::ResultStatus\<close>.
\<close>

datatype ResultStatus =
    MP_OPTIMAL | MP_FEASIBLE | MP_INFEASIBLE | MP_UNBOUNDED | MP_ABNORMAL
  | MP_MODEL_INVALID | MP_NOT_SOLVED

record lp_result =
  result_status :: ResultStatus
  solution_value :: "nat \<Rightarrow> real"
  dual_value :: "nat \<Rightarrow> real"
  activity :: "nat \<Rightarrow> real"

type_synonym lp_oracle = "MPSolver \<Rightarrow> lp_result"

subsection \<open>Parsing and pre-computation\<close>

record catalog =
  recipe_map :: "(string \<times> Recipe) list"
  all_items :: "string list"
  raw_items :: "string list"
  intermediate_items :: "string list"
  machine_caps :: "(string \<times> real) list"
  raw_caps :: "(string \<times> real) list"

definition type_error :: string where
  "type_error = ''[json.exception.type_error.302] type must be number, but is null''"

definition make_recipe :: "factory_input \<Rightarrow> string \<Rightarrow> recipe_json \<Rightarrow> string + Recipe" where
  "make_recipe inp nm data =
     (case map_of (machines inp) (json_machine data) of
        None \<Rightarrow> Inl type_error
      | Some base_speed \<Rightarrow>
          (let md = map_of (modules inp) (json_machine data);
               mod_speed = (case md of Some m \<Rightarrow> (case speed m of Some v \<Rightarrow> v | None \<Rightarrow> 0)
                                     | None \<Rightarrow> 0);
               mod_prod = (case md of Some m \<Rightarrow> (case prod m of Some v \<Rightarrow> v | None \<Rightarrow> 0)
                                    | None \<Rightarrow> 0);
               eff = ieee_div (base_speed * (1 + mod_speed) * 60) (json_time_s data)
           in Inr \<lparr> recipe_name = nm, machine = json_machine data, time_s = json_time_s data,
                    in_items = fold (\<lambda>(item, qty). AList.update item qty) (json_in data) [],
                    out_items = fold (\<lambda>(item, qty). AList.update item qty) (json_out data) [],
                    eff_crafts_per_min = eff,
                    machine_cost_per_craft =
                      (case eff of
                         Finite e \<Rightarrow> if e > 1 / 10 ^ 9 then 1 / e else 10 ^ 30
                       | PlusInf \<Rightarrow> 0
                       | MinusInf \<Rightarrow> 10 ^ 30
                       | NaN \<Rightarrow> 10 ^ 30),
                    prod_mult = 1 + mod_prod \<rparr>))"

text \<open>
  The loop over the recipes. Reading the \<^verbatim>\<open>crafts_per_min\<close> of a machine that the
  document does not list converts a null to a number, which throws; the exception leaves
  \<open>solve_factory\<close>.
\<close>

fun process_recipes ::
  "factory_input \<Rightarrow> (string \<times> recipe_json) list \<Rightarrow> (string \<times> Recipe) list \<times> string list
     \<Rightarrow> string + (string \<times> Recipe) list \<times> string list" where
  "process_recipes inp [] acc = Inr acc"
| "process_recipes inp ((nm, data) # rest) (rs, items) =
     (case make_recipe inp nm data of
        Inl what \<Rightarrow> Inl what
      | Inr r \<Rightarrow>
          process_recipes inp rest
            (AList.update nm r rs,
             fold insort_insert (map fst (json_out data))
               (fold insort_insert (map fst (json_in data)) items)))"

definition parse_catalog :: "factory_input \<Rightarrow> string + catalog" where
  "parse_catalog inp =
     (let raw = fold insort_insert (map fst (raw_supply_per_min inp)) [];
          caps = fold (\<lambda>(item, cap). AList.update item cap) (raw_supply_per_min inp) [];
          mcaps = fold (\<lambda>(m, cap). AList.update m cap) (max_machines inp) []
      in case process_recipes inp (recipes inp) ([], raw) of
           Inl what \<Rightarrow> Inl what
         | Inr (rs, items) \<Rightarrow>
             (let items' = removeAll (target_item inp) items
              in Inr \<lparr> recipe_map = rs, all_items = items', raw_items = raw,
                       intermediate_items = filter (\<lambda>item. item \<notin> set raw) items',
                       machine_caps = mcaps, raw_caps = caps \<rparr>))"

subsection \<open>Phase 1: the largest feasible target rate\<close>

record phase1 =
  solver :: MPSolver
  x_var :: "(string \<times> nat) list"
  T_var :: nat
  item_balance :: "(string \<times> nat) list"
  machine_usage :: "(string \<times> nat) list"

definition make_x :: "string \<times> Recipe \<Rightarrow> MPSolver \<times> (string \<times> nat) list
    \<Rightarrow> MPSolver \<times> (string \<times> nat) list" where
  "make_x = (\<lambda>(nm, r) (s, x).
     let (v, s') = MakeNumVar 0 infinity nm s in (s', AList.update nm v x))"

definition make_balance_row :: "catalog \<Rightarrow> string \<Rightarrow> MPSolver \<times> (string \<times> nat) list
    \<Rightarrow> MPSolver \<times> (string \<times> nat) list" where
  "make_balance_row cat item = (\<lambda>(s, rows).
     let (row, s1) = MakeRowConstraint 0 0 (''balance_'' @ item) s;
         s2 = (if item \<in> set (raw_items cat)
               then SetBounds row (- at_key (raw_caps cat) item 0) 0 s1 else s1)
     in (s2, AList.update item row rows))"

definition make_usage_row :: "string \<times> real \<Rightarrow> MPSolver \<times> (string \<times> nat) list
    \<Rightarrow> MPSolver \<times> (string \<times> nat) list" where
  "make_usage_row = (\<lambda>(nm, cap) (s, rows).
     let (row, s') = MakeRowConstraint 0 cap (''cap_'' @ nm) s in (s', AList.update nm row rows))"

definition set_machine_usage ::
  "(string \<times> nat) list \<Rightarrow> (string \<times> nat) list \<Rightarrow> string \<Rightarrow> Recipe \<Rightarrow> MPSolver \<Rightarrow> MPSolver" where
  "set_machine_usage usage x nm r s =
     (if count_key usage (machine r)
      then SetCoefficient (at_key usage (machine r) 0) (at_key x nm 0) (machine_cost_per_craft r) s
      else s)"

definition set_item_balances ::
  "(string \<times> nat) list \<Rightarrow> (string \<times> nat) list \<Rightarrow> string \<Rightarrow> Recipe \<Rightarrow> MPSolver \<Rightarrow> MPSolver" where
  "set_item_balances balance x nm r s =
     fold (\<lambda>(item, qty) s'.
             if count_key balance item
             then SetCoefficient (at_key balance item 0) (at_key x nm 0) (qty * prod_mult r) s'
             else s')
       (out_items r)
       (fold (\<lambda>(item, qty) s'.
                if count_key balance item
                then SetCoefficient (at_key balance item 0) (at_key x nm 0) (- qty) s'
                else s')
          (in_items r) s)"

definition build_phase1 :: "factory_input \<Rightarrow> catalog \<Rightarrow> phase1" where
  "build_phase1 inp cat =
     (let (s1, x) = fold make_x (recipe_map cat) (CreateSolver, []);
          (T, s2) = MakeNumVar 0 infinity ''target_rate'' s1;
          (s3, balance) = fold (make_balance_row cat) (all_items cat) (s2, []);
          (target_row, s4) = MakeRowConstraint 0 0 (''balance_'' @ target_item inp) s3;
          balance' = AList.update (target_item inp) target_row balance;
          s5 = SetCoefficient target_row T (- 1) s4;
          (s6, usage) = fold make_usage_row (machine_caps cat) (s5, []);
          s7 = fold (\<lambda>(nm, r) s. set_item_balances balance' x nm r (set_machine_usage usage x nm r s))
                 (recipe_map cat) s6;
          s8 = SetMaximization (SetObjectiveCoefficient T 1 s7)
      in \<lparr> solver = s8, x_var = x, T_var = T, item_balance = balance', machine_usage = usage \<rparr>)"

definition initial_failure_result :: json where
  "initial_failure_result =
     json_init
       [json_init [JStr ''status'', JStr ''infeasible''],
        json_init [JStr ''max_feasible_target_per_min'', JNum 0],
        json_init [JStr ''bottleneck_hint'', json_init [JStr ''Initial solver failure'']]]"

subsection \<open>The bottleneck certificate\<close>

definition constraint_hints :: "catalog \<Rightarrow> phase1 \<Rightarrow> lp_result \<Rightarrow> string list" where
  "constraint_hints cat p r =
     fold (\<lambda>(item, row) hints.
             if item \<in> set (raw_items cat) \<and> dual_value r row > tolerance
             then insort_insert (item @ '' supply'') hints
             else hints)
       (item_balance p)
       (fold (\<lambda>(nm, row) hints.
                if dual_value r row > tolerance then insort_insert (nm @ '' cap'') hints
                else hints)
          (machine_usage p) [])"

definition bottleneck_hints :: "catalog \<Rightarrow> phase1 \<Rightarrow> lp_result \<Rightarrow> real \<Rightarrow> string list" where
  "bottleneck_hints cat p r max_feasible_rate =
     (let hints = constraint_hints cat p r
      in if hints = [] \<and> max_feasible_rate > tolerance
         then insort_insert ''Target rate conflicts with other constraints'' hints
         else if hints = []
         then insort_insert ''Unknown bottleneck, possibly no production path'' hints
         else hints)"

definition factory_infeasible_result :: "catalog \<Rightarrow> phase1 \<Rightarrow> lp_result \<Rightarrow> real \<Rightarrow> json" where
  "factory_infeasible_result cat p r max_feasible_rate =
     JObj
       [(''status'', JStr ''infeasible''),
        (''max_feasible_target_per_min'', JNum max_feasible_rate),
        (''bottleneck_hint'', JArr (map JStr (bottleneck_hints cat p r max_feasible_rate)))]"

subsection \<open>Phase 2: the fewest machines at the requested rate\<close>

record phase2 =
  solver2 :: MPSolver
  x2 :: "(string \<times> nat) list"
  item_balance2 :: "(string \<times> nat) list"
  machine_usage2 :: "(string \<times> nat) list"

definition make_row :: "real \<Rightarrow> real \<Rightarrow> string \<Rightarrow> MPSolver \<times> (string \<times> nat) list
    \<Rightarrow> MPSolver \<times> (string \<times> nat) list" where
  "make_row lb ub item = (\<lambda>(s, rows).
     let (row, s') = MakeRowConstraint lb ub (''balance_'' @ item) s
     in (s', AList.update item row rows))"

definition build_phase2 :: "factory_input \<Rightarrow> catalog \<Rightarrow> phase2" where
  "build_phase2 inp cat =
     (let (s1, x) = fold make_x (recipe_map cat) (CreateSolver, []);
          (s2, b1) = fold (make_row 0 0) (intermediate_items cat) (s1, []);
          (s3, b2) = fold (\<lambda>item. make_row (- at_key (raw_caps cat) item 0) 0 item)
                       (raw_items cat) (s2, b1);
          (s4, balance) = make_row (requested_target_rate inp) (requested_target_rate inp)
                            (target_item inp) (s3, b2);
          (s5, usage) = fold make_usage_row (machine_caps cat) (s4, []);
          s6 = SetMinimization s5;
          s7 = fold (\<lambda>(nm, r) s.
                       set_item_balances balance x nm r
                         (SetObjectiveCoefficient (at_key x nm 0) (machine_cost_per_craft r)
                            (set_machine_usage usage x nm r s)))
                 (recipe_map cat) s6
      in \<lparr> solver2 = s7, x2 = x, item_balance2 = balance, machine_usage2 = usage \<rparr>)"

definition phase2_failure_result :: "real \<Rightarrow> json" where
  "phase2_failure_result max_feasible_rate =
     json_init
       [json_init [JStr ''status'', JStr ''infeasible''],
        json_init [JStr ''max_feasible_target_per_min'', JNum max_feasible_rate],
        json_init [JStr ''bottleneck_hint'', json_init [JStr ''Phase 2 solver failure'']]]"

subsection \<open>The emitted plan\<close>

definition emit_recipe :: "phase2 \<Rightarrow> lp_result \<Rightarrow> string \<times> Recipe
    \<Rightarrow> (string \<times> real) list \<times> (string \<times> real) list
    \<Rightarrow> (string \<times> real) list \<times> (string \<times> real) list" where
  "emit_recipe p r = (\<lambda>(nm, rc) (per_recipe_crafts, per_machine_counts).
     let crafts = solution_value r (at_key (x2 p) nm 0)
     in if crafts > tolerance
        then (AList.update nm crafts per_recipe_crafts,
              AList.update (machine rc)
                (at_key per_machine_counts (machine rc) 0 + crafts * machine_cost_per_craft rc)
                per_machine_counts)
        else (per_recipe_crafts, per_machine_counts))"

definition emit_raw :: "catalog \<Rightarrow> phase2 \<Rightarrow> lp_result \<Rightarrow> string
    \<Rightarrow> (string \<times> real) list \<Rightarrow> (string \<times> real) list" where
  "emit_raw cat p r item raw_consumption =
     (let balance = activity r (at_key (item_balance2 p) item 0);
          consumption = - balance
      in if consumption > tolerance then AList.update item consumption raw_consumption
         else if count_key (raw_caps cat) item then AList.update item 0 raw_consumption
         else raw_consumption)"

definition number_map :: "(string \<times> real) list \<Rightarrow> json" where
  "number_map m = JObj (map (\<lambda>(k, v). (k, JNum v)) m)"

definition factory_ok_result :: "catalog \<Rightarrow> phase2 \<Rightarrow> lp_result \<Rightarrow> json" where
  "factory_ok_result cat p r =
     (let machine_counts0 = fold (\<lambda>(nm, cap). AList.update nm 0) (machine_caps cat) [];
          recipe_crafts0 = fold (\<lambda>(nm, rc). AList.update nm 0) (recipe_map cat) [];
          (per_recipe_crafts, per_machine_counts) =
             fold (emit_recipe p r) (recipe_map cat) (recipe_crafts0, machine_counts0);
          raw_consumption = fold (emit_raw cat p r) (raw_items cat) []
      in JObj
           [(''status'', JStr ''ok''),
            (''per_recipe_crafts_per_min'', number_map per_recipe_crafts),
            (''per_machine_counts'', number_map per_machine_counts),
            (''raw_consumption_per_min'', number_map raw_consumption)])"

subsection \<open>The tool\<close>

definition solved :: "ResultStatus \<Rightarrow> bool" where
  "solved st \<longleftrightarrow> \<not> (st \<noteq> MP_OPTIMAL \<and> st \<noteq> MP_FEASIBLE)"

text \<open>
  \<open>solve_factory\<close>: \<open>Inl\<close> is an exception that leaves the function, \<open>Inr\<close> what it
  wrote when it returned.
\<close>

definition solve_factory :: "lp_oracle \<Rightarrow> factory_input stdin \<Rightarrow> string + effects" where
  "solve_factory oracle input =
     (case input of
        NotJson what \<Rightarrow>
          Inr \<lparr> stdout = [], stderr = [''JSON parse error: '' @ what], solver_runs = 0 \<rparr>
      | Document inp \<Rightarrow>
          (case parse_catalog inp of
             Inl what \<Rightarrow> Inl what
           | Inr cat \<Rightarrow>
               (let p1 = build_phase1 inp cat;
                    r1 = oracle (solver p1)
                in if \<not> solved (result_status r1) then
                     Inr \<lparr> stdout = [initial_failure_result], stderr = [], solver_runs = 1 \<rparr>
                   else
                     (let max_feasible_rate = solution_value r1 (T_var p1)
                      in if max_feasible_rate < requested_target_rate inp - tolerance then
                           Inr \<lparr> stdout = [factory_infeasible_result cat p1 r1 max_feasible_rate],
                                 stderr = [], solver_runs = 1 \<rparr>
                         else
                           (let p2 = build_phase2 inp cat;
                                r2 = oracle (solver2 p2)
                            in if \<not> solved (result_status r2) then
                                 Inr \<lparr> stdout = [phase2_failure_result max_feasible_rate],
                                       stderr = [], solver_runs = 2 \<rparr>
                               else
                                 Inr \<lparr> stdout = [factory_ok_result cat p2 r2],
                                       stderr = [], solver_runs = 2 \<rparr>)))))"

text \<open>
  \<open>main\<close> of the factory tool: an exception that leaves \<open>solve_factory\<close> is reported
  on standard error and the process exits with 1; otherwise it exits with 0.
\<close>

definition factory_main :: "lp_oracle \<Rightarrow> factory_input stdin \<Rightarrow> process" where
  "factory_main oracle input =
     (case solve_factory oracle input of
        Inl what \<Rightarrow>
          \<lparr> stdout = [], stderr = [''Unhandled exception: '' @ what], solver_runs = 0,
            exit_code = 1 \<rparr>
      | Inr eff \<Rightarrow> effects.extend eff \<lparr> exit_code = 0 \<rparr>)"

section \<open>Belts: what the claims speak of\<close>

text \<open>
  The arc that an edge \<open>u \<rightarrow> v\<close> with bounds \<open>[lo, hi]\<close> becomes: from the out-index of
  \<open>u\<close> to the in-index of \<open>v\<close>, with capacity \<open>hi - lo\<close>.
\<close>

definition edge_arc :: "node_maps \<Rightarrow> edge_data \<Rightarrow> nat \<times> nat \<times> real" where
  "edge_arc nm e =
     (at_key (node_to_out_index nm) (edge_from e) 0,
      at_key (node_to_in_index nm) (edge_to e) 0,
      upper_bound e - lower_bound e)"

text \<open>
  The final flow of the \<open>i\<close>-th edge of the input, when \<open>k\<close> arcs were added before the
  edges' arcs: the flow of arc \<open>k + i\<close> plus the edge's lower bound; and the entry the
  flows array holds for it.
\<close>

definition edge_flow :: "flow_result \<Rightarrow> nat \<Rightarrow> nat \<times> edge_data \<Rightarrow> real" where
  "edge_flow r k = (\<lambda>(i, e). Flow r (int (k + i)) + lower_bound e)"

definition flow_entry :: "flow_result \<Rightarrow> nat \<Rightarrow> nat \<times> edge_data \<Rightarrow> json" where
  "flow_entry r k = (\<lambda>(i, e).
     JObj [(''from'', JStr (edge_from e)), (''to'', JStr (edge_to e)),
           (''flow'', JNum (edge_flow r k (i, e)))])"

text \<open>
  The imbalance of index \<open>i\<close> as the specification words the lower-bound shift: the
  total supply if \<open>i\<close> is the in-index of the sink, less the supply of every source whose
  out-index is \<open>i\<close>, plus the lower bound of every edge that enters \<open>i\<close>, less the lower
  bound of every edge that leaves \<open>i\<close>. The demand that \<open>s_star\<close> sends is the sum of
  the imbalances that are positive, which under the numerical policy means above
  \<open>tolerance\<close>.
\<close>

definition spec_imbalance :: "belts_input \<Rightarrow> nat \<Rightarrow> real" where
  "spec_imbalance inp i =
     (let nm = build_nodes inp;
          v_in = (\<lambda>n. at_key (node_to_in_index nm) n 0);
          v_out = (\<lambda>n. at_key (node_to_out_index nm) n 0)
      in (if v_in (sink inp) = i then sum_list (map snd (sources inp)) else 0)
         - sum_list (map (\<lambda>(n, supply). if v_out n = i then supply else 0) (sources inp))
         + sum_list (map (\<lambda>e. (if v_in (edge_to e) = i then lower_bound e else 0)
                               - (if v_out (edge_from e) = i then lower_bound e else 0))
                     (edges inp)))"

definition spec_total_demand :: "belts_input \<Rightarrow> real" where
  "spec_total_demand inp = (\<Sum>i | tolerance < spec_imbalance inp i. spec_imbalance inp i)"

definition keys_sorted :: "(nat \<times> real) list \<Rightarrow> bool" where
  "keys_sorted m = sorted_wrt (<) (map fst m)"

text \<open>
  A circulation to run the tool on: no supply, an edge \<open>A \<rightarrow> B\<close> that must carry at
  least 3 and an edge \<open>B \<rightarrow> A\<close> to bring it back. The network the tool builds has the arcs
  \<open>A \<rightarrow> B\<close> (capacity 2), \<open>B \<rightarrow> A\<close> (capacity 5), \<open>A \<rightarrow> t_star\<close> and \<open>s_star \<rightarrow> B\<close>
  (capacity 3 each); its maximum flow is 3, along \<open>s_star \<rightarrow> B \<rightarrow> A \<rightarrow> t_star\<close>, which is
  what \<open>loop_oracle\<close> answers.
\<close>

definition loop_instance :: belts_input where
  "loop_instance =
     \<lparr> sources = [(''A'', 0)], sink = ''B'', node_caps = [],
       edges = [\<lparr> edge_from = ''A'', edge_to = ''B'', lower_bound = 3, upper_bound = 5 \<rparr>,
                \<lparr> edge_from = ''B'', edge_to = ''A'', lower_bound = 0, upper_bound = 5 \<rparr>] \<rparr>"

definition loop_oracle :: flow_oracle where
  "loop_oracle as s t =
     \<lparr> Solve = OPTIMAL, OptimalFlow = 3, Flow = (\<lambda>i. if i = 0 then 0 else 3),
       GetSourceSideMinCut = [0] \<rparr>"

definition loop_output :: json where
  "loop_output =
     JObj [(''status'', JStr ''ok''), (''max_flow_per_min'', JNum 0),
           (''flows'',
              JArr [JObj [(''from'', JStr ''A''), (''to'', JStr ''B''), (''flow'', JNum 3)],
                    JObj [(''from'', JStr ''B''), (''to'', JStr ''A''), (''flow'', JNum 3)]])]"

text \<open>
  A chain \<open>A \<rightarrow> B \<rightarrow> C\<close> with supply 10 at \<open>A\<close> whose second edge has upper bound 3 below
  its lower bound 5.
\<close>

definition crossed_instance :: belts_input where
  "crossed_instance =
     \<lparr> sources = [(''A'', 10)], sink = ''C'', node_caps = [],
       edges = [\<lparr> edge_from = ''A'', edge_to = ''B'', lower_bound = 0, upper_bound = 10 \<rparr>,
                \<lparr> edge_from = ''B'', edge_to = ''C'', lower_bound = 5, upper_bound = 3 \<rparr>] \<rparr>"

section \<open>Factory: what the claims speak of\<close>

text \<open>The keys of a JSON object.\<close>

fun json_keys :: "json \<Rightarrow> string set" where
  "json_keys (JObj kvs) = fst ` set kvs"
| "json_keys _ = {}"

text \<open>
  The rate the Phase-2 solver gives a recipe, the consumption it gives a raw item (the
  negated activity of the row that \<open>item_balance2\<close> holds for it), and the machines
  that the recipes above \<open>tolerance\<close> use of one machine type.
\<close>

definition plan_rate :: "phase2 \<Rightarrow> lp_result \<Rightarrow> string \<Rightarrow> real" where
  "plan_rate p r n = solution_value r (at_key (x2 p) n 0)"

definition consumption :: "phase2 \<Rightarrow> lp_result \<Rightarrow> string \<Rightarrow> real" where
  "consumption p r item = - activity r (at_key (item_balance2 p) item 0)"

definition machines_used :: "phase2 \<Rightarrow> lp_result \<Rightarrow> (string \<times> Recipe) list \<Rightarrow> string \<Rightarrow> real" where
  "machines_used p r rs m =
     sum_list (map (\<lambda>(n, rc). if machine rc = m \<and> plan_rate p r n > tolerance
                               then plan_rate p r n * machine_cost_per_craft rc else 0) rs)"

text \<open>
  The hints of the binding constraints of Phase 1: \<open>"<machine> cap"\<close> for every capped
  machine whose row has a dual value above \<open>tolerance\<close>, and \<open>"<item> supply"\<close> for every
  raw item whose balance row has one.
\<close>

definition binding_hints :: "factory_input \<Rightarrow> phase1 \<Rightarrow> lp_result \<Rightarrow> string set" where
  "binding_hints inp p r =
     {m @ '' cap'' | m. m \<in> fst ` set (max_machines inp) \<and>
                        dual_value r (at_key (machine_usage p) m 0) > tolerance}
     \<union> {i @ '' supply'' | i. i \<in> fst ` set (raw_supply_per_min inp) \<and>
                              dual_value r (at_key (item_balance p) i 0) > tolerance}"

text \<open>
  What is asked of an answer of the LP solver where a property depends on it: every
  variable is at least its lower bound, and every row's activity is the sum of its
  coefficients times the values and lies within the row's bounds.
\<close>

definition row_value :: "MPSolver \<Rightarrow> (nat \<Rightarrow> real) \<Rightarrow> MPConstraint \<Rightarrow> real" where
  "row_value s x row =
     sum_list (map (\<lambda>v. at_key (coefficients row) v 0 * x v) [0 ..< length (variables s)])"

definition lp_feasible :: "MPSolver \<Rightarrow> lp_result \<Rightarrow> bool" where
  "lp_feasible s r \<longleftrightarrow>
     list_all (\<lambda>(v, var). var_lb var \<le> solution_value r v) (enumerate 0 (variables s)) \<and>
     list_all (\<lambda>(j, row). activity r j = row_value s (solution_value r) row \<and>
                 row_lb row \<le> activity r j \<and> activity r j \<le> row_ub row)
       (enumerate 0 (constraints s))"

text \<open>
  A factory to run the tool on. Plates are smelted from ore in a furnace, which has no
  cap; rods are made from plates in an assembler, which is capped at 10; coal is a raw
  item that nothing consumes. The target is 5 plates per minute. \<open>works_catalog\<close>,
  \<open>works_phase1\<close> and \<open>works_phase2\<close> are what the tool computes from it, and
  \<open>works_oracle\<close> answers the two models with their optima: 10 plates per minute at most
  (the ore row binding) in Phase 1, and 5 crafts of \<open>plate\<close> and none of \<open>rod\<close> in
  Phase 2.
\<close>

definition works_instance :: factory_input where
  "works_instance =
     \<lparr> machines = [(''assembler'', 1), (''furnace'', 1)], modules = [],
       recipes =
         [(''plate'', \<lparr> json_machine = ''furnace'', json_time_s = 60,
                        json_in = [(''ore'', 1)], json_out = [(''plate'', 1)] \<rparr>),
          (''rod'', \<lparr> json_machine = ''assembler'', json_time_s = 60,
                      json_in = [(''plate'', 1)], json_out = [(''rod'', 1)] \<rparr>)],
       max_machines = [(''assembler'', 10)],
       raw_supply_per_min = [(''coal'', 5), (''ore'', 10)],
       target_item = ''plate'', requested_target_rate = 5 \<rparr>"

definition works_catalog :: catalog where
  "works_catalog =
     \<lparr> recipe_map =
         [(''plate'',
           \<lparr> recipe_name = ''plate'', machine = ''furnace'', time_s = 60,
             in_items = [(''ore'', 1)], out_items = [(''plate'', 1)],
             eff_crafts_per_min = Finite 1, machine_cost_per_craft = 1, prod_mult = 1 \<rparr>),
          (''rod'',
           \<lparr> recipe_name = ''rod'', machine = ''assembler'', time_s = 60,
             in_items = [(''plate'', 1)], out_items = [(''rod'', 1)],
             eff_crafts_per_min = Finite 1, machine_cost_per_craft = 1, prod_mult = 1 \<rparr>)],
       all_items = [''coal'', ''ore'', ''rod''],
       raw_items = [''coal'', ''ore''], intermediate_items = [''rod''],
       machine_caps = [(''assembler'', 10)],
       raw_caps = [(''coal'', 5), (''ore'', 10)] \<rparr>"

definition works_phase1 :: phase1 where
  "works_phase1 =
     \<lparr> solver =
         \<lparr> variables =
             [\<lparr> var_lb = 0, var_ub = None, var_name = ''plate'' \<rparr>,
              \<lparr> var_lb = 0, var_ub = None, var_name = ''rod'' \<rparr>,
              \<lparr> var_lb = 0, var_ub = None, var_name = ''target_rate'' \<rparr>],
           constraints =
             [\<lparr> row_lb = - 5, row_ub = 0, row_name = ''balance_coal'', coefficients = [] \<rparr>,
              \<lparr> row_lb = - 10, row_ub = 0, row_name = ''balance_ore'',
                coefficients = [(0, - 1)] \<rparr>,
              \<lparr> row_lb = 0, row_ub = 0, row_name = ''balance_rod'', coefficients = [(1, 1)] \<rparr>,
              \<lparr> row_lb = 0, row_ub = 0, row_name = ''balance_plate'',
                coefficients = [(2, - 1), (0, 1), (1, - 1)] \<rparr>,
              \<lparr> row_lb = 0, row_ub = 10, row_name = ''cap_assembler'',
                coefficients = [(1, 1)] \<rparr>],
           objective = [(2, 1)], maximization = True \<rparr>,
       x_var = [(''plate'', 0), (''rod'', 1)], T_var = 2,
       item_balance = [(''coal'', 0), (''ore'', 1), (''rod'', 2), (''plate'', 3)],
       machine_usage = [(''assembler'', 4)] \<rparr>"

definition works_phase2 :: phase2 where
  "works_phase2 =
     \<lparr> solver2 =
         \<lparr> variables =
             [\<lparr> var_lb = 0, var_ub = None, var_name = ''plate'' \<rparr>,
              \<lparr> var_lb = 0, var_ub = None, var_name = ''rod'' \<rparr>],
           constraints =
             [\<lparr> row_lb = 0, row_ub = 0, row_name = ''balance_rod'', coefficients = [(1, 1)] \<rparr>,
              \<lparr> row_lb = - 5, row_ub = 0, row_name = ''balance_coal'', coefficients = [] \<rparr>,
              \<lparr> row_lb = - 10, row_ub = 0, row_name = ''balance_ore'',
                coefficients = [(0, - 1)] \<rparr>,
              \<lparr> row_lb = 5, row_ub = 5, row_name = ''balance_plate'',
                coefficients = [(0, 1), (1, - 1)] \<rparr>,
              \<lparr> row_lb = 0, row_ub = 10, row_name = ''cap_assembler'',
                coefficients = [(1, 1)] \<rparr>],
           objective = [(0, 1), (1, 1)], maximization = False \<rparr>,
       x2 = [(''plate'', 0), (''rod'', 1)],
       item_balance2 = [(''rod'', 0), (''coal'', 1), (''ore'', 2), (''plate'', 3)],
       machine_usage2 = [(''assembler'', 4)] \<rparr>"

definition works_oracle :: lp_oracle where
  "works_oracle s =
     (if maximization s
      then \<lparr> result_status = MP_OPTIMAL,
             solution_value = (\<lambda>v. if v = 1 then 0 else 10),
             dual_value = (\<lambda>j. if j = 1 then 1 else 0),
             activity = (\<lambda>j. if j = 1 then - 10 else 0) \<rparr>
      else \<lparr> result_status = MP_OPTIMAL,
             solution_value = (\<lambda>v. if v = 0 then 5 else 0),
             dual_value = (\<lambda>j. 0),
             activity = (\<lambda>j. if j = 2 then - 5 else if j = 3 then 5 else 0) \<rparr>)"

definition works_output :: json where
  "works_output =
     JObj [(''status'', JStr ''ok''),
           (''per_recipe_crafts_per_min'', JObj [(''plate'', JNum 5), (''rod'', JNum 0)]),
           (''per_machine_counts'', JObj [(''assembler'', JNum 0), (''furnace'', JNum 5)]),
           (''raw_consumption_per_min'', JObj [(''coal'', JNum 0), (''ore'', JNum 5)])]"

text \<open>The same factory asked for 50 plates per minute, which the ore cannot feed.\<close>

definition starved_instance :: factory_input where
  "starved_instance = works_instance\<lparr> requested_target_rate := 50 \<rparr>"

text \<open>
  A factory without any cap: one recipe makes gears from nothing. Its Phase-1 model is
  unbounded, which is what \<open>unbounded_oracle\<close> answers.
\<close>

definition free_instance :: factory_input where
  "free_instance =
     \<lparr> machines = [(''assembler'', 1)], modules = [],
       recipes = [(''gear'', \<lparr> json_machine = ''assembler'', json_time_s = 60,
                              json_in = [], json_out = [(''gear'', 1)] \<rparr>)],
       max_machines = [], raw_supply_per_min = [],
       target_item = ''gear'', requested_target_rate = 5 \<rparr>"

definition free_catalog :: catalog where
  "free_catalog =
     \<lparr> recipe_map =
         [(''gear'',
           \<lparr> recipe_name = ''gear'', machine = ''assembler'', time_s = 60,
             in_items = [], out_items = [(''gear'', 1)],
             eff_crafts_per_min = Finite 1, machine_cost_per_craft = 1, prod_mult = 1 \<rparr>)],
       all_items = [], raw_items = [], intermediate_items = [],
       machine_caps = [], raw_caps = [] \<rparr>"

definition unbounded_oracle :: lp_oracle where
  "unbounded_oracle s =
     \<lparr> result_status = MP_UNBOUNDED, solution_value = (\<lambda>v. 0), dual_value = (\<lambda>j. 0),
       activity = (\<lambda>j. 0) \<rparr>"

definition free_output :: json where
  "free_output =
     JObj [(''status'', JStr ''infeasible''),
           (''max_feasible_target_per_min'', JNum 0),
           (''bottleneck_hint'', JArr [JStr ''Initial solver failure''])]"


section \<open>Factory: the linear program of Phase 2\<close>

text \<open>
  The coefficient that row \<open>j\<close> of a solver holds for variable \<open>v\<close>; a coefficient that
  was never set is 0.
\<close>

definition cf :: "MPSolver \<Rightarrow> nat \<Rightarrow> nat \<Rightarrow> real" where
  "cf s j v = at_key (coefficients (constraints s ! j)) v 0"

text \<open>
  Setting coefficients leaves the variables and the bounds and names of the rows as
  they are.
\<close>

definition same_frame :: "MPSolver \<Rightarrow> MPSolver \<Rightarrow> bool" where
  "same_frame s s' \<longleftrightarrow>
     variables s' = variables s \<and> length (constraints s') = length (constraints s) \<and>
     map row_lb (constraints s') = map row_lb (constraints s) \<and>
     map row_ub (constraints s') = map row_ub (constraints s) \<and>
     map row_name (constraints s') = map row_name (constraints s)"

text \<open>
  The rows that a map from names to rows points to, and what makes such a map usable:
  its rows exist, and two names never share a row.
\<close>

definition rows_of :: "(string \<times> nat) list \<Rightarrow> nat set" where
  "rows_of m = (\<lambda>k. at_key m k 0) ` fst ` set m"

definition row_map :: "MPSolver \<Rightarrow> (string \<times> nat) list \<Rightarrow> bool" where
  "row_map s m \<longleftrightarrow>
     (\<forall>j \<in> rows_of m. j < length (constraints s)) \<and> inj_on (\<lambda>k. at_key m k 0) (fst ` set m)"

text \<open>
  One of the two loops of \<open>set_item_balances\<close>: over the inputs with \<open>g qty = - qty\<close>,
  over the outputs with \<open>g qty = qty * prod_mult\<close>.
\<close>

definition item_loop ::
  "(string \<times> nat) list \<Rightarrow> nat \<Rightarrow> (real \<Rightarrow> real) \<Rightarrow> (string \<times> real) list \<Rightarrow> MPSolver \<Rightarrow> MPSolver" where
  "item_loop balance v g items s =
     fold (\<lambda>(item, qty) s'.
             if count_key balance item then SetCoefficient (at_key balance item 0) v (g qty) s'
             else s')
       items s"

text \<open>
  The coefficient that the two loops leave in the row of item \<open>i\<close> for the variable of a
  recipe, where \<open>c0\<close> stood before. The loop over the outputs runs last and
  \<open>SetCoefficient\<close> replaces: for an item that a recipe both consumes and produces, the
  output term alone remains.
\<close>

definition lp_coefficient :: "Recipe \<Rightarrow> string \<Rightarrow> real \<Rightarrow> real" where
  "lp_coefficient rc i c0 =
     (if i \<in> fst ` set (out_items rc) then at_key (out_items rc) i 0 * prod_mult rc
      else if i \<in> fst ` set (in_items rc) then - at_key (in_items rc) i 0
      else c0)"

text \<open>The body of the loop over the recipes that populates the Phase-2 model.\<close>

definition phase2_step ::
  "(string \<times> nat) list \<Rightarrow> (string \<times> nat) list \<Rightarrow> (string \<times> nat) list \<Rightarrow> string \<times> Recipe
     \<Rightarrow> MPSolver \<Rightarrow> MPSolver" where
  "phase2_step usage balance x = (\<lambda>(nm, r) s.
     set_item_balances balance x nm r
       (SetObjectiveCoefficient (at_key x nm 0) (machine_cost_per_craft r)
          (set_machine_usage usage x nm r s)))"

text \<open>The \<open>in\<close> and \<open>out\<close> maps of a recipe hold every item once.\<close>

definition well_formed :: "Recipe \<Rightarrow> bool" where
  "well_formed rc \<longleftrightarrow> distinct (map fst (in_items rc)) \<and> distinct (map fst (out_items rc))"

text \<open>
  The Phase-2 model before any coefficient is set, written out: the rows in the order
  in which \<open>build_phase2\<close> creates them (intermediate items, raw items, the target,
  capped machines), one variable per recipe, and the three maps from names to rows and
  variables. A raw item that is also the target has a row among the raw rows, at
  \<open>raw_rows\<close>; \<open>phase2_balance\<close> maps the target to \<open>target_row\<close>.
\<close>

definition phase2_rows :: "factory_input \<Rightarrow> catalog \<Rightarrow> MPConstraint list" where
  "phase2_rows inp cat =
     map (\<lambda>item. \<lparr> row_lb = 0, row_ub = 0, row_name = ''balance_'' @ item, coefficients = [] \<rparr>)
       (intermediate_items cat)
     @ map (\<lambda>item. \<lparr> row_lb = - at_key (raw_caps cat) item 0, row_ub = 0,
                      row_name = ''balance_'' @ item, coefficients = [] \<rparr>)
         (raw_items cat)
     @ [\<lparr> row_lb = requested_target_rate inp, row_ub = requested_target_rate inp,
           row_name = ''balance_'' @ target_item inp, coefficients = [] \<rparr>]
     @ map (\<lambda>(nm, cap). \<lparr> row_lb = 0, row_ub = cap, row_name = ''cap_'' @ nm,
                           coefficients = [] \<rparr>)
         (machine_caps cat)"

definition phase2_frame :: "factory_input \<Rightarrow> catalog \<Rightarrow> MPSolver" where
  "phase2_frame inp cat =
     \<lparr> variables = map (\<lambda>(nm, r). \<lparr> var_lb = 0, var_ub = infinity, var_name = nm \<rparr>)
                     (recipe_map cat),
       constraints = phase2_rows inp cat, objective = [], maximization = False \<rparr>"

definition phase2_x :: "catalog \<Rightarrow> (string \<times> nat) list" where
  "phase2_x cat = zip (map fst (recipe_map cat)) [0 ..< length (recipe_map cat)]"

definition raw_rows :: "catalog \<Rightarrow> (string \<times> nat) list" where
  "raw_rows cat =
     zip (intermediate_items cat @ raw_items cat)
       [0 ..< length (intermediate_items cat) + length (raw_items cat)]"

definition target_row :: "catalog \<Rightarrow> nat" where
  "target_row cat = length (intermediate_items cat) + length (raw_items cat)"

definition phase2_balance :: "factory_input \<Rightarrow> catalog \<Rightarrow> (string \<times> nat) list" where
  "phase2_balance inp cat = AList.update (target_item inp) (target_row cat) (raw_rows cat)"

definition phase2_usage :: "catalog \<Rightarrow> (string \<times> nat) list" where
  "phase2_usage cat =
     zip (map fst (machine_caps cat))
       [Suc (target_row cat) ..< Suc (target_row cat) + length (machine_caps cat)]"

text \<open>
  The linear expression of the balance row of item \<open>i\<close> in the Phase-2 model, at the
  rates \<open>rate\<close>.
\<close>

definition lp_balance :: "catalog \<Rightarrow> (string \<Rightarrow> real) \<Rightarrow> string \<Rightarrow> real" where
  "lp_balance cat rate i =
     sum_list (map (\<lambda>(nm, r). lp_coefficient r i 0 * rate nm) (recipe_map cat))"

subsection \<open>The balance of a plan\<close>

text \<open>
  What one craft of a recipe adds to item \<open>i\<close>, \<open>out[i] * prod_mult - in[i]\<close>; the balance
  \<open>\<Sum>r. x r * (out r [i] * prod_mult r - in r [i])\<close> of item \<open>i\<close> under the rates \<open>x\<close>; and
  the sum of the absolute values of the terms' coefficients, which bounds what
  changing every rate by at most one unit can do to the balance.
\<close>

definition net_output :: "Recipe \<Rightarrow> string \<Rightarrow> real" where
  "net_output rc i = at_key (out_items rc) i 0 * prod_mult rc - at_key (in_items rc) i 0"

definition plan_balance :: "catalog \<Rightarrow> (string \<Rightarrow> real) \<Rightarrow> string \<Rightarrow> real" where
  "plan_balance cat rate i =
     sum_list (map (\<lambda>(nm, r). rate nm * net_output r i) (recipe_map cat))"

definition weight :: "catalog \<Rightarrow> string \<Rightarrow> real" where
  "weight cat i = sum_list (map (\<lambda>(nm, r). \<bar>net_output r i\<bar>) (recipe_map cat))"

text \<open>No item is both an input and an output of the recipe.\<close>

definition no_overlap :: "Recipe \<Rightarrow> bool" where
  "no_overlap rc \<longleftrightarrow> fst ` set (in_items rc) \<inter> fst ` set (out_items rc) = {}"

text \<open>The rate that the object \<open>per_recipe_crafts_per_min\<close> gives a recipe.\<close>

definition emitted_rate :: "json \<Rightarrow> string \<Rightarrow> real" where
  "emitted_rate crafts nm = (case json_get crafts nm of Some (JNum v) \<Rightarrow> v | _ \<Rightarrow> 0)"

text \<open>The rates that the tool prints for \<open>works_instance\<close>.\<close>

definition works_crafts :: json where
  "works_crafts = JObj [(''plate'', JNum 5), (''rod'', JNum 0)]"

subsection \<open>A target below the threshold\<close>

text \<open>
  One recipe stamps 10 coins per craft in a press, of which there is one. The target is
  \<open>5 / 10 ^ 9\<close> coins per minute, which takes \<open>5 / 10 ^ 10\<close> crafts per minute.
  \<open>mint_oracle\<close> answers both models with their optimum.
\<close>

definition mint_instance :: factory_input where
  "mint_instance =
     \<lparr> machines = [(''press'', 1)], modules = [],
       recipes = [(''stamp'', \<lparr> json_machine = ''press'', json_time_s = 60,
                               json_in = [], json_out = [(''coin'', 10)] \<rparr>)],
       max_machines = [(''press'', 1)], raw_supply_per_min = [],
       target_item = ''coin'', requested_target_rate = 5 / 10 ^ 9 \<rparr>"

definition mint_catalog :: catalog where
  "mint_catalog =
     \<lparr> recipe_map =
         [(''stamp'',
           \<lparr> recipe_name = ''stamp'', machine = ''press'', time_s = 60,
             in_items = [], out_items = [(''coin'', 10)],
             eff_crafts_per_min = Finite 1, machine_cost_per_craft = 1, prod_mult = 1 \<rparr>)],
       all_items = [], raw_items = [], intermediate_items = [],
       machine_caps = [(''press'', 1)], raw_caps = [] \<rparr>"

definition mint_phase1 :: phase1 where
  "mint_phase1 =
     \<lparr> solver =
         \<lparr> variables =
             [\<lparr> var_lb = 0, var_ub = None, var_name = ''stamp'' \<rparr>,
              \<lparr> var_lb = 0, var_ub = None, var_name = ''target_rate'' \<rparr>],
           constraints =
             [\<lparr> row_lb = 0, row_ub = 0, row_name = ''balance_coin'',
                coefficients = [(1, - 1), (0, 10)] \<rparr>,
              \<lparr> row_lb = 0, row_ub = 1, row_name = ''cap_press'', coefficients = [(0, 1)] \<rparr>],
           objective = [(1, 1)], maximization = True \<rparr>,
       x_var = [(''stamp'', 0)], T_var = 1,
       item_balance = [(''coin'', 0)],
       machine_usage = [(''press'', 1)] \<rparr>"

definition mint_phase2 :: phase2 where
  "mint_phase2 =
     \<lparr> solver2 =
         \<lparr> variables = [\<lparr> var_lb = 0, var_ub = None, var_name = ''stamp'' \<rparr>],
           constraints =
             [\<lparr> row_lb = 5 / 10 ^ 9, row_ub = 5 / 10 ^ 9, row_name = ''balance_coin'',
                coefficients = [(0, 10)] \<rparr>,
              \<lparr> row_lb = 0, row_ub = 1, row_name = ''cap_press'', coefficients = [(0, 1)] \<rparr>],
           objective = [(0, 1)], maximization = False \<rparr>,
       x2 = [(''stamp'', 0)],
       item_balance2 = [(''coin'', 0)],
       machine_usage2 = [(''press'', 1)] \<rparr>"

definition mint_oracle :: lp_oracle where
  "mint_oracle s =
     (if maximization s
      then \<lparr> result_status = MP_OPTIMAL,
             solution_value = (\<lambda>v. if v = 0 then 1 else 10),
             dual_value = (\<lambda>j. if j = 1 then 10 else 0),
             activity = (\<lambda>j. if j = 1 then 1 else 0) \<rparr>
      else \<lparr> result_status = MP_OPTIMAL,
             solution_value = (\<lambda>v. 5 / 10 ^ 10),
             dual_value = (\<lambda>j. 0),
             activity = (\<lambda>j. if j = 0 then 5 / 10 ^ 9 else 5 / 10 ^ 10) \<rparr>)"

definition mint_output :: json where
  "mint_output =
     JObj [(''status'', JStr ''ok''),
           (''per_recipe_crafts_per_min'', JObj [(''stamp'', JNum 0)]),
           (''per_machine_counts'', JObj [(''press'', JNum 0)]),
           (''raw_consumption_per_min'', JObj [])]"

subsection \<open>A target that is also a raw item\<close>

text \<open>
  The rows that a solver had keep their bounds and names in a later solver, which may
  have more rows.
\<close>

definition keeps_rows :: "MPSolver \<Rightarrow> MPSolver \<Rightarrow> bool" where
  "keeps_rows s s' \<longleftrightarrow>
     length (constraints s) \<le> length (constraints s') \<and>
     (\<forall>j < length (constraints s).
        row_lb (constraints s' ! j) = row_lb (constraints s ! j) \<and>
        row_ub (constraints s' ! j) = row_ub (constraints s ! j) \<and>
        row_name (constraints s' ! j) = row_name (constraints s ! j))"

text \<open>
  A plant recycles acid: a craft takes 41 and returns 40. Acid is the target, at 1 per
  minute, and a raw item with a supply of 0. In both models the second
  \<open>SetCoefficient\<close> call on the target row replaces the input term \<open>- 41\<close> by the output
  term \<open>40\<close>. \<open>recycle_oracle\<close> answers both models with their optimum.
\<close>

definition recycle_instance :: factory_input where
  "recycle_instance =
     \<lparr> machines = [(''plant'', 1)], modules = [],
       recipes = [(''recycle'', \<lparr> json_machine = ''plant'', json_time_s = 60,
                                 json_in = [(''acid'', 41)], json_out = [(''acid'', 40)] \<rparr>)],
       max_machines = [(''plant'', 10)], raw_supply_per_min = [(''acid'', 0)],
       target_item = ''acid'', requested_target_rate = 1 \<rparr>"

definition recycle_catalog :: catalog where
  "recycle_catalog =
     \<lparr> recipe_map =
         [(''recycle'',
           \<lparr> recipe_name = ''recycle'', machine = ''plant'', time_s = 60,
             in_items = [(''acid'', 41)], out_items = [(''acid'', 40)],
             eff_crafts_per_min = Finite 1, machine_cost_per_craft = 1, prod_mult = 1 \<rparr>)],
       all_items = [], raw_items = [''acid''], intermediate_items = [],
       machine_caps = [(''plant'', 10)], raw_caps = [(''acid'', 0)] \<rparr>"

definition recycle_phase1 :: phase1 where
  "recycle_phase1 =
     \<lparr> solver =
         \<lparr> variables =
             [\<lparr> var_lb = 0, var_ub = None, var_name = ''recycle'' \<rparr>,
              \<lparr> var_lb = 0, var_ub = None, var_name = ''target_rate'' \<rparr>],
           constraints =
             [\<lparr> row_lb = 0, row_ub = 0, row_name = ''balance_acid'',
                coefficients = [(1, - 1), (0, 40)] \<rparr>,
              \<lparr> row_lb = 0, row_ub = 10, row_name = ''cap_plant'', coefficients = [(0, 1)] \<rparr>],
           objective = [(1, 1)], maximization = True \<rparr>,
       x_var = [(''recycle'', 0)], T_var = 1,
       item_balance = [(''acid'', 0)],
       machine_usage = [(''plant'', 1)] \<rparr>"

definition recycle_phase2 :: phase2 where
  "recycle_phase2 =
     \<lparr> solver2 =
         \<lparr> variables = [\<lparr> var_lb = 0, var_ub = None, var_name = ''recycle'' \<rparr>],
           constraints =
             [\<lparr> row_lb = 0, row_ub = 0, row_name = ''balance_acid'', coefficients = [] \<rparr>,
              \<lparr> row_lb = 1, row_ub = 1, row_name = ''balance_acid'',
                coefficients = [(0, 40)] \<rparr>,
              \<lparr> row_lb = 0, row_ub = 10, row_name = ''cap_plant'', coefficients = [(0, 1)] \<rparr>],
           objective = [(0, 1)], maximization = False \<rparr>,
       x2 = [(''recycle'', 0)],
       item_balance2 = [(''acid'', 1)],
       machine_usage2 = [(''plant'', 2)] \<rparr>"

definition recycle_oracle :: lp_oracle where
  "recycle_oracle s =
     (if maximization s
      then \<lparr> result_status = MP_OPTIMAL,
             solution_value = (\<lambda>v. if v = 0 then 10 else 400),
             dual_value = (\<lambda>j. if j = 1 then 40 else 0),
             activity = (\<lambda>j. if j = 1 then 10 else 0) \<rparr>
      else \<lparr> result_status = MP_OPTIMAL,
             solution_value = (\<lambda>v. 1 / 40),
             dual_value = (\<lambda>j. 0),
             activity = (\<lambda>j. if j = 1 then 1 else if j = 2 then 1 / 40 else 0) \<rparr>)"

definition recycle_crafts :: json where
  "recycle_crafts = JObj [(''recycle'', JNum (1 / 40))]"

definition recycle_output :: json where
  "recycle_output =
     JObj [(''status'', JStr ''ok''),
           (''per_recipe_crafts_per_min'', recycle_crafts),
           (''per_machine_counts'', JObj [(''plant'', JNum (1 / 40))]),
           (''raw_consumption_per_min'', JObj [(''acid'', JNum 0)])]"

section \<open>Belts: properties\<close>

subsection \<open>The status of each document\<close>

lemma json_get_precheck_status:
  "json_get (precheck_result t e) ''status'' = Some (JStr ''infeasible'')"
  by (simp add: precheck_result_def json_init_def)

lemma json_get_failure_status:
  "json_get (solver_failure_result t) ''status'' = Some (JStr ''infeasible'')"
  by (simp add: solver_failure_result_def json_init_def)

lemma json_get_infeasible_status:
  "json_get (infeasible_result inp names as es t r) ''status'' = Some (JStr ''infeasible'')"
  by (simp add: infeasible_result_def Let_def split: prod.splits)

lemma add_edges_Inl_status:
  "add_edges nm t es g = Inl j \<Longrightarrow> json_get j ''status'' = Some (JStr ''infeasible'')"
proof (induction es arbitrary: g)
  case Nil
  then show ?case by simp
next
  case (Cons e es)
  then show ?case
    by (auto simp: Let_def AddArcWithCapacity_def json_get_precheck_status split: if_splits)
qed

subsection \<open>Arcs and edges\<close>

text \<open>
  When the loop over the edges runs to its end, the edges' arcs were appended in the
  order of the edges, and each edge recorded the position of its own arc.
\<close>

lemma add_edges_Inr:
  "add_edges nm t es g = Inr g' \<Longrightarrow>
     original_edges g' = original_edges g
        @ map (\<lambda>(i, e). edge_data.extend e \<lparr> arc_index = int i \<rparr>) (enumerate (length (graph_arcs g)) es)
     \<and> graph_arcs g' = graph_arcs g @ map (edge_arc nm) es"
proof (induction es arbitrary: g)
  case Nil
  then show ?case by simp
next
  case (Cons e es)
  from Cons.prems have ok: "\<not> upper_bound e - lower_bound e < - tolerance"
    by (auto simp: Let_def split: if_splits)
  let ?g1 = "\<lparr> graph_arcs = graph_arcs g @ [edge_arc nm e],
       node_balance = balance_add (at_key (node_to_in_index nm) (edge_to e) 0) (lower_bound e)
          (balance_add (at_key (node_to_out_index nm) (edge_from e) 0) (- lower_bound e) (node_balance g)),
       original_edges = original_edges g @ [edge_data.extend e \<lparr> arc_index = int (length (graph_arcs g)) \<rparr>] \<rparr>"
  from Cons.prems ok have "add_edges nm t es ?g1 = Inr g'"
    by (simp add: Let_def AddArcWithCapacity_def edge_arc_def)
  from Cons.IH [OF this] show ?case by simp
qed

lemma balance_arc_extends:
  "\<exists>extra. fst (fold balance_arc bal (as, t)) = as @ extra"
proof (induction bal arbitrary: as t)
  case Nil
  then show ?case by simp
next
  case (Cons p bal)
  obtain i b where p: "p = (i, b)" by (cases p)
  show ?case using Cons.IH
    apply (simp add: p balance_arc_def AddArcWithCapacity_def)
    by (metis append.assoc)
qed

lemma total_supply_sum: "total_supply inp = sum_list (map snd (sources inp))"
proof -
  have "fold (\<lambda>(name, supply) acc. acc + supply) xs a = a + sum_list (map snd xs)" for xs :: "(string \<times> real) list" and a
    by (induction xs arbitrary: a) (auto)
  then show ?thesis by (simp add: total_supply_def)
qed

lemma build_graph_Inr:
  assumes "build_graph inp = Inr (as, td, es)"
  shows "es = map (\<lambda>(i, e). edge_data.extend e \<lparr> arc_index = int i \<rparr>)
                (enumerate (length (solver_arcs (build_nodes inp))) (edges inp))"
    and "take (length (edges inp)) (drop (length (solver_arcs (build_nodes inp))) as)
           = map (edge_arc (build_nodes inp)) (edges inp)"
proof -
  let ?nm = "build_nodes inp"
  let ?g0 = "empty_graph ?nm (supply_balance inp ?nm)"
  from assms obtain g where g: "add_edges ?nm (total_supply inp) (edges inp) ?g0 = Inr g"
    and r: "(as, td) = balance_arcs (node_balance g) (graph_arcs g)" and es: "es = original_edges g"
    by (auto simp: build_graph_def Let_def split: sum.splits prod.splits)
  from add_edges_Inr [OF g]
  have oe: "original_edges g = map (\<lambda>(i, e). edge_data.extend e \<lparr> arc_index = int i \<rparr>)
                (enumerate (length (solver_arcs ?nm)) (edges inp))"
    and ga: "graph_arcs g = solver_arcs ?nm @ map (edge_arc ?nm) (edges inp)"
    by (simp_all add: empty_graph_def)
  from oe es show "es = map (\<lambda>(i, e). edge_data.extend e \<lparr> arc_index = int i \<rparr>)
                (enumerate (length (solver_arcs (build_nodes inp))) (edges inp))" by simp
  from balance_arc_extends [of "node_balance g" "graph_arcs g" 0] r
  obtain extra where "as = graph_arcs g @ extra"
    by (auto simp: balance_arcs_def dest: arg_cong [where f = fst])
  with ga show "take (length (edges inp)) (drop (length (solver_arcs ?nm)) as)
           = map (edge_arc ?nm) (edges inp)" by simp
qed

lemma ok_flows:
  "map (flow_json r) (filter (\<lambda>e. final_flow r e > tolerance)
        (map (\<lambda>(i, e). edge_data.extend e \<lparr> arc_index = int i \<rparr>) (enumerate k es)))
   = map (flow_entry r k) (filter (\<lambda>ie. edge_flow r k ie > tolerance) (enumerate 0 es))"
proof -
  have "map (flow_json r) (filter (\<lambda>e. final_flow r e > tolerance)
        (map (\<lambda>(i, e). edge_data.extend e \<lparr> arc_index = int i \<rparr>) (enumerate (k + n) es)))
   = map (flow_entry r k) (filter (\<lambda>ie. edge_flow r k ie > tolerance) (enumerate n es))" for n
  proof (induction es arbitrary: n)
    case Nil
    then show ?case by simp
  next
    case (Cons e es)
    from Cons.IH [of "Suc n"] show ?case
      by (simp add: flow_json_def final_flow_def flow_entry_def edge_flow_def json_init_def
          edge_data.defs)
  qed
  from this [of 0] show ?thesis by simp
qed

lemmas belts_eval =
  build_graph_def build_nodes_def all_node_names_def add_node_def initial_maps_def is_split_def
  count_key_def at_key_def total_supply_def supply_balance_def empty_graph_def tolerance_def
  AddArcWithCapacity_def balance_arcs_def balance_arc_def insort_insert_key_def
  s_star_def t_star_def Let_def edge_data.defs

lemma loop_graph:
  "build_graph loop_instance =
     Inr ([(2, 3, 2), (3, 2, 5), (2, 1, 3), (0, 3, 3)], 3,
          [\<lparr> edge_from = ''A'', edge_to = ''B'', lower_bound = 3, upper_bound = 5,
             arc_index = 0 \<rparr>,
           \<lparr> edge_from = ''B'', edge_to = ''A'', lower_bound = 0, upper_bound = 5,
             arc_index = 1 \<rparr>])"
  by (simp add: loop_instance_def belts_eval)

lemma loop_run:
  "stdout (solve_belts loop_oracle (Document loop_instance)) = [loop_output]"
proof -
  have ts: "total_supply loop_instance = 0"
    by (simp add: loop_instance_def total_supply_def)
  show ?thesis
    by (simp add: solve_belts_def loop_graph loop_oracle_def loop_output_def ok_result_def
        final_flow_def flow_json_def json_init_def tolerance_def ts)
qed

text \<open>
  Claim C7. Whenever the belts tool prints a document with status \<open>ok\<close>, its
  \<open>max_flow_per_min\<close> is the sum of the supplies of all sources, and its \<open>flows\<close>
  array holds, in the order of the input edges, exactly one entry
  \<open>{from, to, flow}\<close> for each edge whose final flow (the flow the solver reports for
  the edge's arc, plus the edge's lower bound) exceeds \<open>tolerance\<close>, with that value as
  \<open>flow\<close>; edges whose final flow is at most \<open>tolerance\<close> have no entry. The arc of the
  \<open>i\<close>-th edge is arc \<open>k + i\<close> of the network given to the solver, \<open>k\<close> being the
  number of node-cap arcs, and it is the arc \<open>u_out \<rightarrow> v_in\<close> with capacity \<open>hi - lo\<close>.
\<close>

theorem belts_ok_output:
  assumes "stdout (solve_belts oracle (Document inp)) = [out]"
      and "json_get out ''status'' = Some (JStr ''ok'')"
  shows "\<exists>as td es. build_graph inp = Inr (as, td, es) \<and>
     (let r = oracle as s_star t_star; k = length (solver_arcs (build_nodes inp))
      in take (length (edges inp)) (drop k as) = map (edge_arc (build_nodes inp)) (edges inp) \<and>
         json_get out ''max_flow_per_min'' = Some (JNum (sum_list (map snd (sources inp)))) \<and>
         json_get out ''flows'' =
           Some (JArr (map (flow_entry r k)
                   (filter (\<lambda>ie. edge_flow r k ie > tolerance) (enumerate 0 (edges inp))))))"
proof (cases "build_graph inp")
  case (Inl j)
  then have "json_get j ''status'' = Some (JStr ''infeasible'')"
    by (auto simp: build_graph_def Let_def add_edges_Inl_status split: sum.splits prod.splits)
  with assms Inl show ?thesis by (simp add: solve_belts_def)
next
  case (Inr t)
  obtain as td es where t: "t = (as, td, es)" by (cases t)
  let ?r = "oracle as s_star t_star"
  from assms Inr t have out: "out = ok_result inp es ?r"
    by (auto simp: solve_belts_def Let_def json_get_failure_status json_get_infeasible_status
        split: if_splits)
  from Inr t have bg: "build_graph inp = Inr (as, td, es)" by simp
  show ?thesis
    using build_graph_Inr [OF bg] bg
    by (simp add: out ok_result_def Let_def total_supply_sum ok_flows)
qed

theorem belts_ok_output_witness:
  "stdout (solve_belts loop_oracle (Document loop_instance)) = [loop_output] \<and>
   json_get loop_output ''status'' = Some (JStr ''ok'') \<and>
   json_get loop_output ''max_flow_per_min'' = Some (JNum 0) \<and>
   json_get loop_output ''flows'' =
     Some (JArr [JObj [(''from'', JStr ''A''), (''to'', JStr ''B''), (''flow'', JNum 3)],
                 JObj [(''from'', JStr ''B''), (''to'', JStr ''A''), (''flow'', JNum 3)]])"
proof -
  have st: "json_get loop_output ''status'' = Some (JStr ''ok'')"
    by (simp add: loop_output_def)
  have k: "length (solver_arcs (build_nodes loop_instance)) = 0"
    by (simp add: loop_instance_def belts_eval)
  have es: "edges loop_instance =
      [\<lparr> edge_from = ''A'', edge_to = ''B'', lower_bound = 3, upper_bound = 5 \<rparr>,
       \<lparr> edge_from = ''B'', edge_to = ''A'', lower_bound = 0, upper_bound = 5 \<rparr>]"
    and src: "sources loop_instance = [(''A'', 0)]"
    by (simp_all add: loop_instance_def)
  from belts_ok_output [OF loop_run st]
  have "json_get loop_output ''max_flow_per_min'' = Some (JNum 0) \<and>
        json_get loop_output ''flows'' =
          Some (JArr [JObj [(''from'', JStr ''A''), (''to'', JStr ''B''), (''flow'', JNum 3)],
                      JObj [(''from'', JStr ''B''), (''to'', JStr ''A''), (''flow'', JNum 3)]])"
    by (simp add: loop_graph k es src loop_oracle_def flow_entry_def edge_flow_def tolerance_def)
  with loop_run st show ?thesis by simp
qed

subsection \<open>The balances and the demand\<close>

lemma keys_sorted_Nil: "keys_sorted []" by (simp add: keys_sorted_def)

lemma balance_add_keys: "fst ` set (balance_add k d m) = insert k (fst ` set m)"
proof (induction m)
  case Nil
  then show ?case by simp
next
  case (Cons p m)
  obtain k' v where p: "p = (k', v)" by (cases p)
  show ?case using Cons.IH by (cases "k = k'"; cases "k < k'") (simp_all add: p insert_commute)
qed

lemma balance_add_sorted: "keys_sorted m \<Longrightarrow> keys_sorted (balance_add k d m)"
proof (induction m)
  case Nil
  then show ?case by (simp add: keys_sorted_def)
next
  case (Cons p m)
  obtain k' v where p: "p = (k', v)" by (cases p)
  from Cons.prems have m: "keys_sorted m" and lt: "\<forall>x\<in>fst ` set m. k' < x"
    by (auto simp: keys_sorted_def p)
  from Cons.IH [OF m] have "keys_sorted (balance_add k d m)" .
  moreover have "k' < k \<Longrightarrow> \<forall>x\<in>fst ` set (balance_add k d m). k' < x"
    using lt by (simp add: balance_add_keys)
  ultimately show ?case using Cons.prems
    by (auto simp: keys_sorted_def p)
qed

lemma at_key_sorted_None: "keys_sorted ((k', v) # m) \<Longrightarrow> k < k' \<Longrightarrow> map_of ((k', v) # m) k = None"
  by (auto simp: keys_sorted_def map_of_eq_None_iff)

lemma balance_add_at:
  "keys_sorted m \<Longrightarrow> at_key (balance_add k d m) i 0 = at_key m i 0 + (if i = k then d else 0)"
proof (induction m)
  case Nil
  then show ?case by (simp add: at_key_def)
next
  case (Cons p m)
  obtain k' v where p: "p = (k', v)" by (cases p)
  from Cons.prems have m: "keys_sorted m" by (auto simp: keys_sorted_def)
  show ?case
  proof (cases "k = k'")
    case True
    then show ?thesis by (simp add: p at_key_def)
  next
    case False
    show ?thesis
    proof (cases "k < k'")
      case True
      have "map_of ((k', v) # m) k = None"
        using Cons.prems True by (intro at_key_sorted_None) (simp_all add: p)
      then show ?thesis using True False
        by (simp add: p at_key_def)
    next
      case gt: False
      from Cons.IH [OF m] show ?thesis using gt False
        by (cases "i = k'") (auto simp: p at_key_def)
    qed
  qed
qed

lemma fold_sources_balance:
  "keys_sorted m \<Longrightarrow>
     keys_sorted (fold (\<lambda>(n, supply). balance_add (f n) (- supply)) srcs m) \<and>
     at_key (fold (\<lambda>(n, supply). balance_add (f n) (- supply)) srcs m) i 0
       = at_key m i 0 - sum_list (map (\<lambda>(n, supply). if f n = i then supply else 0) srcs)"
proof (induction srcs arbitrary: m)
  case Nil
  then show ?case by simp
next
  case (Cons p srcs)
  obtain n amount where p: "p = (n, amount)" by (cases p)
  from Cons.prems have s: "keys_sorted (balance_add (f n) (- amount) m)"
    by (rule balance_add_sorted)
  from Cons.IH [OF s] show ?case
    by (simp add: p balance_add_at [OF Cons.prems])
qed

lemma supply_balance_at:
  "keys_sorted (supply_balance inp nm)"
  "at_key (supply_balance inp nm) i 0
     = (if at_key (node_to_in_index nm) (sink inp) 0 = i then sum_list (map snd (sources inp)) else 0)
       - sum_list (map (\<lambda>(n, supply). if at_key (node_to_out_index nm) n 0 = i then supply else 0)
                    (sources inp))"
proof -
  let ?f = "\<lambda>n. at_key (node_to_out_index nm) n 0"
  let ?m = "fold (\<lambda>(n, supply). balance_add (?f n) (- supply)) (sources inp) []"
  from fold_sources_balance [OF keys_sorted_Nil, of ?f "sources inp" i]
  have s: "keys_sorted ?m"
    and a: "at_key ?m i 0 = - sum_list (map (\<lambda>(n, supply). if ?f n = i then supply else 0) (sources inp))"
    by (simp_all add: at_key_def)
  show "keys_sorted (supply_balance inp nm)"
    unfolding supply_balance_def using s by (rule balance_add_sorted)
  show "at_key (supply_balance inp nm) i 0
     = (if at_key (node_to_in_index nm) (sink inp) 0 = i then sum_list (map snd (sources inp)) else 0)
       - sum_list (map (\<lambda>(n, supply). if at_key (node_to_out_index nm) n 0 = i then supply else 0)
                    (sources inp))"
    unfolding supply_balance_def by (simp add: balance_add_at [OF s] a total_supply_sum)
qed

lemma add_edges_balance:
  "add_edges nm t es g = Inr g' \<Longrightarrow> keys_sorted (node_balance g) \<Longrightarrow>
     keys_sorted (node_balance g') \<and>
     at_key (node_balance g') i 0
       = at_key (node_balance g) i 0
         + sum_list (map (\<lambda>e. (if at_key (node_to_in_index nm) (edge_to e) 0 = i then lower_bound e else 0)
                               - (if at_key (node_to_out_index nm) (edge_from e) 0 = i then lower_bound e else 0))
                     es)"
proof (induction es arbitrary: g)
  case Nil
  then show ?case by simp
next
  case (Cons e es)
  from Cons.prems have ok: "\<not> upper_bound e - lower_bound e < - tolerance"
    by (auto simp: Let_def split: if_splits)
  let ?u = "at_key (node_to_out_index nm) (edge_from e) 0"
  let ?v = "at_key (node_to_in_index nm) (edge_to e) 0"
  let ?b1 = "balance_add ?u (- lower_bound e) (node_balance g)"
  let ?b2 = "balance_add ?v (lower_bound e) ?b1"
  let ?g1 = "\<lparr> graph_arcs = graph_arcs g @ [(?u, ?v, upper_bound e - lower_bound e)],
       node_balance = ?b2,
       original_edges = original_edges g @ [edge_data.extend e \<lparr> arc_index = int (length (graph_arcs g)) \<rparr>] \<rparr>"
  from Cons.prems ok have step: "add_edges nm t es ?g1 = Inr g'"
    by (simp add: Let_def AddArcWithCapacity_def)
  have s1: "keys_sorted ?b1" using Cons.prems(2) by (rule balance_add_sorted)
  have s2: "keys_sorted ?b2" using s1 by (rule balance_add_sorted)
  have at: "at_key ?b2 i 0 = at_key (node_balance g) i 0
      + ((if ?v = i then lower_bound e else 0) - (if ?u = i then lower_bound e else 0))"
    by (simp add: balance_add_at [OF s1] balance_add_at [OF Cons.prems(2)])
  from Cons.IH [OF step] s2 at show ?case by simp
qed

lemma add_edges_no_violation:
  "\<forall>e\<in>set es. \<not> upper_bound e < lower_bound e - tolerance \<Longrightarrow> \<exists>g'. add_edges nm t es g = Inr g'"
proof (induction es arbitrary: g)
  case Nil
  then show ?case by simp
next
  case (Cons e es)
  then have "\<not> upper_bound e - lower_bound e < - tolerance" by auto
  with Cons show ?case by (simp add: Let_def AddArcWithCapacity_def)
qed

lemma balance_arcs_total:
  "snd (fold balance_arc bal (as, t))
     = t + sum_list (map (\<lambda>(i, b). if b > tolerance then b else 0) bal)"
proof (induction bal arbitrary: as t)
  case Nil
  then show ?case by simp
next
  case (Cons p bal)
  obtain i b where p: "p = (i, b)" by (cases p)
  obtain as' where "balance_arc p (as, t) = (as', t + (if b > tolerance then b else 0))"
    by (cases "b > tolerance"; cases "b < - tolerance") (simp_all add: p balance_arc_def)
  then show ?case by (simp add: p Cons.IH)
qed

lemma keys_sorted_distinct: "keys_sorted m \<Longrightarrow> distinct (map fst m)"
  by (simp add: keys_sorted_def strict_sorted_iff)

lemma sum_over_keys:
  assumes "keys_sorted m"
  shows "sum_list (map (\<lambda>(i, b). if b > tolerance then b else 0) m)
           = (\<Sum>i | tolerance < at_key m i 0. at_key m i 0)"
proof -
  have d: "distinct (map fst m)" using assms by (rule keys_sorted_distinct)
  have "at_key m i 0 = b" if "(i, b) \<in> set m" for i b
    using d that by (simp add: at_key_def)
  then have "map (\<lambda>(i, b). if b > tolerance then b else 0) m
          = map (\<lambda>i. if at_key m i 0 > tolerance then at_key m i 0 else 0) (map fst m)"
    by auto
  then have "sum_list (map (\<lambda>(i, b). if b > tolerance then b else 0) m)
          = sum_list (map (\<lambda>i. if at_key m i 0 > tolerance then at_key m i 0 else 0) (map fst m))"
    by (simp only:)
  also have "\<dots> = (\<Sum>i\<in>set (map fst m). if at_key m i 0 > tolerance then at_key m i 0 else 0)"
    using d by (rule sum_list_distinct_conv_sum_set)
  also have "\<dots> = (\<Sum>i\<in>fst ` set m. if at_key m i 0 > tolerance then at_key m i 0 else 0)"
    by simp
  also have "\<dots> = (\<Sum>i\<in>{i \<in> fst ` set m. tolerance < at_key m i 0}. at_key m i 0)"
    by (simp add: sum.inter_filter)
  also have "{i \<in> fst ` set m. tolerance < at_key m i 0} = {i. tolerance < at_key m i 0}"
  proof -
    have "i \<in> fst ` set m" if "tolerance < at_key m i 0" for i
    proof (rule ccontr)
      assume "i \<notin> fst ` set m"
      then have "map_of m i = None" by (simp add: map_of_eq_None_iff)
      with that show False by (simp add: at_key_def tolerance_def)
    qed
    then show ?thesis by auto
  qed
  finally show ?thesis .
qed

lemma build_graph_total_demand:
  assumes "\<forall>e\<in>set (edges inp). \<not> upper_bound e < lower_bound e - tolerance"
  shows "\<exists>as es. build_graph inp = Inr (as, spec_total_demand inp, es)"
proof -
  let ?nm = "build_nodes inp"
  let ?g0 = "empty_graph ?nm (supply_balance inp ?nm)"
  from add_edges_no_violation [OF assms]
  obtain g where g: "add_edges ?nm (total_supply inp) (edges inp) ?g0 = Inr g" by blast
  have s0: "keys_sorted (node_balance ?g0)"
    by (simp add: empty_graph_def supply_balance_at(1))
  from add_edges_balance [OF g s0]
  have s: "keys_sorted (node_balance g)"
    and a: "at_key (node_balance g) i 0 = spec_imbalance inp i" for i
    by (simp_all add: empty_graph_def supply_balance_at(2) spec_imbalance_def Let_def)
  have "snd (balance_arcs (node_balance g) (graph_arcs g)) = spec_total_demand inp"
    by (simp add: balance_arcs_def balance_arcs_total sum_over_keys [OF s] a spec_total_demand_def)
  then show ?thesis
    using g by (auto simp: build_graph_def Let_def split: prod.splits)
qed

text \<open>
  Claim C1. For every belts instance in which no edge has \<open>hi < lo - tolerance\<close>, the
  tool reaches the solver with a network whose demand from \<open>s_star\<close> is the sum of the
  positive per-node imbalances of the lower-bound shift (positive meaning above
  \<open>tolerance\<close>, the one constant of all positivity comparisons); and if the solver
  answers \<open>OPTIMAL\<close>, the tool prints status \<open>ok\<close> when the flow value is at least that
  demand less \<open>tolerance\<close>, and status \<open>infeasible\<close> otherwise.
\<close>

theorem belts_feasibility_decision:
  assumes "\<forall>e\<in>set (edges inp). \<not> upper_bound e < lower_bound e - tolerance"
  shows "\<exists>as es. build_graph inp = Inr (as, spec_total_demand inp, es) \<and>
          (Solve (oracle as s_star t_star) = OPTIMAL \<longrightarrow>
             (\<exists>out. stdout (solve_belts oracle (Document inp)) = [out] \<and>
                json_get out ''status'' =
                  Some (JStr (if OptimalFlow (oracle as s_star t_star)
                                   \<ge> spec_total_demand inp - tolerance
                              then ''ok'' else ''infeasible''))))"
proof -
  from build_graph_total_demand [OF assms]
  obtain as es where bg: "build_graph inp = Inr (as, spec_total_demand inp, es)" by blast
  have "\<exists>out. stdout (solve_belts oracle (Document inp)) = [out] \<and>
                json_get out ''status'' =
                  Some (JStr (if OptimalFlow (oracle as s_star t_star)
                                   \<ge> spec_total_demand inp - tolerance
                              then ''ok'' else ''infeasible''))"
    if "Solve (oracle as s_star t_star) = OPTIMAL"
    using that bg
    by (simp add: solve_belts_def Let_def json_get_infeasible_status ok_result_def not_less)
  with bg show ?thesis by blast
qed

theorem belts_feasibility_decision_witness:
  "spec_total_demand loop_instance = 3 \<and>
   (\<exists>out. stdout (solve_belts loop_oracle (Document loop_instance)) = [out] \<and>
      json_get out ''status'' = Some (JStr ''ok''))"
proof -
  have h: "\<forall>e\<in>set (edges loop_instance). \<not> upper_bound e < lower_bound e - tolerance"
    by (simp add: loop_instance_def tolerance_def)
  from belts_feasibility_decision [OF h, of loop_oracle]
  obtain as es where bg: "build_graph loop_instance = Inr (as, spec_total_demand loop_instance, es)"
    and dec: "Solve (loop_oracle as s_star t_star) = OPTIMAL \<longrightarrow>
       (\<exists>out. stdout (solve_belts loop_oracle (Document loop_instance)) = [out] \<and>
          json_get out ''status'' =
            Some (JStr (if OptimalFlow (loop_oracle as s_star t_star)
                             \<ge> spec_total_demand loop_instance - tolerance
                        then ''ok'' else ''infeasible'')))"
    by blast
  from bg have td: "spec_total_demand loop_instance = 3"
    by (simp add: loop_graph)
  from dec show ?thesis
    by (simp add: td loop_oracle_def tolerance_def)
qed

subsection \<open>The pre-check\<close>

text \<open>
  Claim C4. On the chain \<open>A \<rightarrow> B \<rightarrow> C\<close> whose second edge has bounds \<open>[5, 3]\<close>, the tool
  prints status \<open>infeasible\<close> whatever the solver would answer, without asking it; the
  \<open>demand_balance\<close> is the total supply 10 and \<open>flow_needed\<close> is \<open>3 - 5\<close>; but
  \<open>tight_edges\<close> is the edge object itself, not an array that holds it.
\<close>

theorem precheck_tight_edges_object:
  "belts_main oracle (Document crossed_instance) =
     \<lparr> stdout =
         [JObj [(''status'', JStr ''infeasible''),
                (''cut_reachable'', JNull),
                (''deficit'',
                   JObj [(''demand_balance'', JNum 10),
                         (''tight_nodes'', JNull),
                         (''tight_edges'',
                            JObj [(''from'', JStr ''B''), (''to'', JStr ''C''),
                                  (''flow_needed'', JNum (- 2))])])]],
       stderr = [], solver_runs = 0, exit_code = 0 \<rparr>"
  by (simp add: belts_main_def solve_belts_def crossed_instance_def belts_eval
      precheck_result_def json_init_def effects.defs)

section \<open>Factory: properties\<close>

subsection \<open>Maps and sets\<close>

lemma json_get_number_map: "json_get (number_map m) k = map_option JNum (map_of m k)"
  by (induction m) (auto simp: number_map_def)

lemma json_keys_number_map: "json_keys (number_map m) = fst ` set m"
  by (force simp: number_map_def)

lemma update_key_set: "fst ` set (AList.update k v al) = insert k (fst ` set al)"
  using AList.dom_update [of k v al] by (simp add: dom_map_of_conv_image_fst)

lemma at_key_update: "at_key (AList.update k v al) k' d = (if k' = k then v else at_key al k' d)"
  by (simp add: at_key_def AList.update_conv')

lemma map_of_keys: "fst ` set m = {k. map_of m k \<noteq> None}"
  by (auto simp: map_of_eq_None_iff)

lemma distinct_pairs:
  assumes "distinct (map fst m)"
  shows "(k, v) \<in> set m \<longleftrightarrow> k \<in> fst ` set m \<and> at_key m k d = v"
proof
  assume "(k, v) \<in> set m"
  with assms show "k \<in> fst ` set m \<and> at_key m k d = v"
    by (force simp: at_key_def)
next
  assume a: "k \<in> fst ` set m \<and> at_key m k d = v"
  then obtain v' where v': "(k, v') \<in> set m" by auto
  with assms have "map_of m k = Some v'" by simp
  with a have "v' = v" by (simp add: at_key_def)
  with v' show "(k, v) \<in> set m" by simp
qed

lemma fold_update_keys:
  "fst ` set (fold (\<lambda>(k, v). AList.update k (g k v)) xs m) = fst ` set m \<union> fst ` set xs"
proof (induction xs arbitrary: m)
  case Nil
  then show ?case by simp
next
  case (Cons p xs)
  obtain k v where p: "p = (k, v)" by (cases p)
  show ?case by (simp add: p Cons.IH update_key_set)
qed

lemma fold_update_distinct:
  "distinct (map fst m) \<Longrightarrow> distinct (map fst (fold (\<lambda>(k, v). AList.update k (g k v)) xs m))"
  by (induction xs arbitrary: m) (auto simp: AList.distinct_update)

lemma fold_update_const:
  "map_of (fold (\<lambda>(k, v). AList.update k c) xs m) n
     = (if n \<in> fst ` set xs then Some c else map_of m n)"
  by (induction xs arbitrary: m) (auto simp: AList.update_conv')

lemma fold_insort_insert_set: "set (fold insort_insert xs s) = set s \<union> set xs"
  by (induction xs arbitrary: s) (auto simp: set_insort_insert)

lemma fold_insort_insert_sorted:
  "sorted s \<Longrightarrow> distinct s \<Longrightarrow> sorted (fold insort_insert xs s) \<and> distinct (fold insort_insert xs s)"
  by (induction xs arbitrary: s) (auto simp: sorted_insort_insert distinct_insort_insert)

subsection \<open>The catalog\<close>

lemma process_recipes_keys:
  "process_recipes inp rs (acc, items) = Inr (acc', items') \<Longrightarrow>
     fst ` set acc' = fst ` set acc \<union> fst ` set rs \<and> set items \<subseteq> set items' \<and>
     (distinct (map fst acc) \<longrightarrow> distinct (map fst acc'))"
proof (induction rs arbitrary: acc items)
  case Nil
  then show ?case by simp
next
  case (Cons p rs)
  obtain nm data where p: "p = (nm, data)" by (cases p)
  from Cons.prems obtain r where r: "make_recipe inp nm data = Inr r"
    and rest: "process_recipes inp rs (AList.update nm r acc,
             fold insort_insert (map fst (json_out data))
               (fold insort_insert (map fst (json_in data)) items)) = Inr (acc', items')"
    by (auto simp: p split: sum.splits)
  from Cons.IH [OF rest] show ?case
    by (auto simp: p update_key_set fold_insort_insert_set AList.distinct_update)
qed

lemma parse_catalog_keys:
  assumes "parse_catalog inp = Inr cat"
  shows "fst ` set (recipe_map cat) = fst ` set (recipes inp)"
    and "distinct (map fst (recipe_map cat))"
    and "fst ` set (machine_caps cat) = fst ` set (max_machines inp)"
    and "fst ` set (raw_caps cat) = fst ` set (raw_supply_per_min inp)"
    and "set (raw_items cat) = fst ` set (raw_supply_per_min inp)"
    and "set (raw_items cat) \<subseteq> insert (target_item inp) (set (all_items cat))"
    and "target_item inp \<notin> set (all_items cat)"
    and "set (intermediate_items cat) = set (all_items cat) - set (raw_items cat)"
proof -
  let ?raw = "fold insort_insert (map fst (raw_supply_per_min inp)) []"
  from assms obtain rs items where pr: "process_recipes inp (recipes inp) ([], ?raw) = Inr (rs, items)"
    and cat: "cat = \<lparr> recipe_map = rs, all_items = removeAll (target_item inp) items, raw_items = ?raw,
                       intermediate_items = filter (\<lambda>item. item \<notin> set ?raw) (removeAll (target_item inp) items),
                       machine_caps = fold (\<lambda>(m, cap). AList.update m cap) (max_machines inp) [],
                       raw_caps = fold (\<lambda>(item, cap). AList.update item cap) (raw_supply_per_min inp) [] \<rparr>"
    by (auto simp: parse_catalog_def Let_def split: sum.splits)
  from process_recipes_keys [OF pr]
  have k: "fst ` set rs = fst ` set (recipes inp)" and sub: "set ?raw \<subseteq> set items"
    and d: "distinct (map fst rs)" by auto
  show "fst ` set (recipe_map cat) = fst ` set (recipes inp)" using k by (simp add: cat)
  show "distinct (map fst (recipe_map cat))" using d by (simp add: cat)
  show "fst ` set (machine_caps cat) = fst ` set (max_machines inp)"
    using fold_update_keys [of "\<lambda>k v. v" "max_machines inp" "[]"] by (simp add: cat)
  show "fst ` set (raw_caps cat) = fst ` set (raw_supply_per_min inp)"
    using fold_update_keys [of "\<lambda>k v. v" "raw_supply_per_min inp" "[]"] by (simp add: cat)
  show "set (raw_items cat) = fst ` set (raw_supply_per_min inp)"
    by (simp add: cat fold_insort_insert_set)
  show "set (raw_items cat) \<subseteq> insert (target_item inp) (set (all_items cat))"
    using sub by (auto simp: cat)
  show "target_item inp \<notin> set (all_items cat)" by (simp add: cat)
  show "set (intermediate_items cat) = set (all_items cat) - set (raw_items cat)"
    by (auto simp: cat)
qed

subsection \<open>The path to each document\<close>

lemma json_get_initial_failure:
  "json_get initial_failure_result ''status'' = Some (JStr ''infeasible'')"
  by (simp add: initial_failure_result_def json_init_def)

lemma json_get_phase2_failure:
  "json_get (phase2_failure_result t) ''status'' = Some (JStr ''infeasible'')"
  by (simp add: phase2_failure_result_def json_init_def)

lemma json_get_factory_infeasible:
  "json_get (factory_infeasible_result cat p r t) ''status'' = Some (JStr ''infeasible'')"
  by (simp add: factory_infeasible_result_def)

lemma factory_ok_path:
  assumes "stdout (factory_main oracle (Document inp)) = [out]"
      and "json_get out ''status'' = Some (JStr ''ok'')"
  shows "\<exists>cat. parse_catalog inp = Inr cat \<and>
           solved (result_status (oracle (solver (build_phase1 inp cat)))) \<and>
           \<not> solution_value (oracle (solver (build_phase1 inp cat))) (T_var (build_phase1 inp cat))
                < requested_target_rate inp - tolerance \<and>
           solved (result_status (oracle (solver2 (build_phase2 inp cat)))) \<and>
           out = factory_ok_result cat (build_phase2 inp cat) (oracle (solver2 (build_phase2 inp cat)))"
proof (cases "parse_catalog inp")
  case (Inl what)
  with assms show ?thesis by (simp add: factory_main_def solve_factory_def)
next
  case (Inr cat)
  with assms show ?thesis
    by (auto simp: factory_main_def solve_factory_def Let_def effects.defs
        json_get_initial_failure json_get_phase2_failure json_get_factory_infeasible
        split: if_splits)
qed

subsection \<open>The example factories\<close>

lemmas catalog_eval =
  parse_catalog_def make_recipe_def ieee_div_def insort_insert_key_def Let_def

lemmas lp_eval =
  make_x_def make_balance_row_def make_usage_row_def make_row_def set_machine_usage_def
  set_item_balances_def CreateSolver_def infinity_def MakeNumVar_def MakeRowConstraint_def
  SetBounds_def SetCoefficient_def SetObjectiveCoefficient_def SetMaximization_def
  SetMinimization_def at_key_def count_key_def Let_def

lemma works_parse: "parse_catalog works_instance = Inr works_catalog"
  by (simp add: works_instance_def works_catalog_def catalog_eval)

lemma works_build1: "build_phase1 works_instance works_catalog = works_phase1"
  by (simp add: build_phase1_def works_instance_def works_catalog_def works_phase1_def lp_eval)

lemma works_build2: "build_phase2 works_instance works_catalog = works_phase2"
  by (simp add: build_phase2_def works_instance_def works_catalog_def works_phase2_def lp_eval)

lemma works_feasible1: "lp_feasible (solver works_phase1) (works_oracle (solver works_phase1))"
  by (simp add: lp_feasible_def row_value_def works_phase1_def works_oracle_def at_key_def)

lemma works_feasible2: "lp_feasible (solver2 works_phase2) (works_oracle (solver2 works_phase2))"
  by (simp add: lp_feasible_def row_value_def works_phase2_def works_oracle_def at_key_def)

lemma works_run:
  "factory_main works_oracle (Document works_instance) =
     \<lparr> stdout = [works_output], stderr = [], solver_runs = 2, exit_code = 0 \<rparr>"
proof -
  have p1: "solved (result_status (works_oracle (solver works_phase1)))"
    "solution_value (works_oracle (solver works_phase1)) (T_var works_phase1) = 10"
    by (simp_all add: works_oracle_def works_phase1_def solved_def)
  have rate: "requested_target_rate works_instance = 5" by (simp add: works_instance_def)
  have p2: "solved (result_status (works_oracle (solver2 works_phase2)))"
    by (simp add: works_oracle_def works_phase2_def solved_def)
  have out: "factory_ok_result works_catalog works_phase2 (works_oracle (solver2 works_phase2))
      = works_output"
    by (simp add: factory_ok_result_def works_catalog_def works_phase2_def works_oracle_def
        works_output_def emit_recipe_def emit_raw_def number_map_def at_key_def count_key_def
        tolerance_def Let_def)
  show ?thesis
    by (simp add: factory_main_def solve_factory_def works_parse works_build1 works_build2
        p1 p2 rate out tolerance_def effects.defs Let_def)
qed

lemma works_rates:
  "plan_rate works_phase2 (works_oracle (solver2 works_phase2)) ''plate'' = 5"
  "plan_rate works_phase2 (works_oracle (solver2 works_phase2)) ''rod'' = 0"
  by (simp_all add: plan_rate_def works_phase2_def works_oracle_def at_key_def)

lemma works_used:
  "{machine rc | n rc. (n, rc) \<in> set (recipe_map works_catalog) \<and>
      plan_rate works_phase2 (works_oracle (solver2 works_phase2)) n > tolerance}
   = {''furnace''}"
proof -
  obtain rp rr where rm: "recipe_map works_catalog = [(''plate'', rp), (''rod'', rr)]"
    and mp: "machine rp = ''furnace''"
    by (simp add: works_catalog_def)
  have "(n, rc) \<in> set (recipe_map works_catalog) \<and>
          plan_rate works_phase2 (works_oracle (solver2 works_phase2)) n > tolerance
        \<longleftrightarrow> n = ''plate'' \<and> rc = rp" for n rc
    using works_rates by (auto simp: rm tolerance_def)
  then show ?thesis by (simp add: mp)
qed

lemma starved_parse: "parse_catalog starved_instance = Inr works_catalog"
  by (simp add: starved_instance_def works_instance_def works_catalog_def catalog_eval)

lemma starved_build1: "build_phase1 starved_instance works_catalog = works_phase1"
  by (simp add: build_phase1_def starved_instance_def works_instance_def works_catalog_def
      works_phase1_def lp_eval)

lemma free_parse: "parse_catalog free_instance = Inr free_catalog"
  by (simp add: free_instance_def free_catalog_def catalog_eval)

lemma free_run:
  "factory_main unbounded_oracle (Document free_instance) =
     \<lparr> stdout = [free_output], stderr = [], solver_runs = 1, exit_code = 0 \<rparr>"
  by (simp add: factory_main_def solve_factory_def free_parse unbounded_oracle_def solved_def
      initial_failure_result_def json_init_def free_output_def effects.defs Let_def)

subsection \<open>The emitted maps\<close>

lemma emit_recipe_step:
  "emit_recipe p r (n, rc) (crafts, counts) =
     (if plan_rate p r n > tolerance
      then (AList.update n (plan_rate p r n) crafts,
            AList.update (machine rc)
              (at_key counts (machine rc) 0 + plan_rate p r n * machine_cost_per_craft rc) counts)
      else (crafts, counts))"
  by (simp add: emit_recipe_def plan_rate_def Let_def)

lemma emit_crafts_keys:
  "fst ` set (fst (fold (emit_recipe p r) rs acc))
     = fst ` set (fst acc) \<union> {n. \<exists>rc. (n, rc) \<in> set rs \<and> plan_rate p r n > tolerance}"
proof (induction rs arbitrary: acc)
  case Nil
  then show ?case by simp
next
  case (Cons e rs)
  obtain n rc where e: "e = (n, rc)" by (cases e)
  obtain crafts counts where acc: "acc = (crafts, counts)" by (cases acc)
  show ?case
    by (auto simp: e acc Cons.IH emit_recipe_step update_key_set)
qed

lemma emit_crafts_value:
  "map_of (fst (fold (emit_recipe p r) rs acc)) n
     = (if (\<exists>rc. (n, rc) \<in> set rs) \<and> plan_rate p r n > tolerance
        then Some (plan_rate p r n) else map_of (fst acc) n)"
proof (induction rs arbitrary: acc)
  case Nil
  then show ?case by simp
next
  case (Cons e rs)
  obtain n' rc where e: "e = (n', rc)" by (cases e)
  obtain crafts counts where acc: "acc = (crafts, counts)" by (cases acc)
  show ?case
    by (auto simp: e acc Cons.IH emit_recipe_step AList.update_conv')
qed

lemma emit_counts_keys:
  "fst ` set (snd (fold (emit_recipe p r) rs acc))
     = fst ` set (snd acc)
       \<union> {machine rc | n rc. (n, rc) \<in> set rs \<and> plan_rate p r n > tolerance}"
proof (induction rs arbitrary: acc)
  case Nil
  then show ?case by simp
next
  case (Cons e rs)
  obtain n rc where e: "e = (n, rc)" by (cases e)
  obtain crafts counts where acc: "acc = (crafts, counts)" by (cases acc)
  show ?case
    by (auto simp: e acc Cons.IH emit_recipe_step update_key_set)
qed

lemma emit_counts_value:
  "at_key (snd (fold (emit_recipe p r) rs acc)) m 0
     = at_key (snd acc) m 0 + machines_used p r rs m"
proof (induction rs arbitrary: acc)
  case Nil
  then show ?case by (simp add: machines_used_def)
next
  case (Cons e rs)
  obtain n rc where e: "e = (n, rc)" by (cases e)
  obtain crafts counts where acc: "acc = (crafts, counts)" by (cases acc)
  have "machines_used p r (e # rs) m
      = (if machine rc = m \<and> plan_rate p r n > tolerance
         then plan_rate p r n * machine_cost_per_craft rc else 0) + machines_used p r rs m"
    by (simp add: machines_used_def e)
  then show ?case
    by (simp add: e acc Cons.IH emit_recipe_step at_key_update)
qed

lemma emit_raw_fold:
  "set items \<subseteq> fst ` set (raw_caps cat) \<Longrightarrow>
     map_of (fold (emit_raw cat p r) items cons) i
       = (if i \<in> set items
          then Some (if consumption p r i > tolerance then consumption p r i else 0)
          else map_of cons i)"
proof (induction items arbitrary: cons)
  case Nil
  then show ?case by simp
next
  case (Cons item items)
  then have "count_key (raw_caps cat) item" by (simp add: count_key_def)
  then have step: "emit_raw cat p r item cons
      = AList.update item (if consumption p r item > tolerance then consumption p r item else 0) cons"
    by (simp add: emit_raw_def consumption_def Let_def)
  from Cons.prems have sub: "set items \<subseteq> fst ` set (raw_caps cat)" by simp
  show ?case
    by (simp add: step Cons.IH [OF sub] AList.update_conv')
qed

lemma emit_raw_keys:
  assumes "set items \<subseteq> fst ` set (raw_caps cat)"
  shows "fst ` set (fold (emit_raw cat p r) items []) = set items"
  unfolding map_of_keys emit_raw_fold [OF assms] by auto

lemma ok_result_fields:
  fixes cat p r
  defines "acc \<equiv> fold (emit_recipe p r) (recipe_map cat)
                     (fold (\<lambda>(nm, rc). AList.update nm 0) (recipe_map cat) [],
                      fold (\<lambda>(nm, cap). AList.update nm 0) (machine_caps cat) [])"
  shows "json_get (factory_ok_result cat p r) ''per_recipe_crafts_per_min'' = Some (number_map (fst acc))"
    and "json_get (factory_ok_result cat p r) ''per_machine_counts'' = Some (number_map (snd acc))"
    and "json_get (factory_ok_result cat p r) ''raw_consumption_per_min''
           = Some (number_map (fold (emit_raw cat p r) (raw_items cat) []))"
  by (simp_all add: factory_ok_result_def acc_def Let_def split: prod.splits)

text \<open>
  Claim C6, as the code has it. In every factory output with status \<open>ok\<close>,
  \<open>per_machine_counts\<close> has a key for every machine listed under
  \<open>limits.max_machines\<close> and for the machine of every recipe whose rate exceeds
  \<open>tolerance\<close>, and no other key: an uncapped machine that the plan uses does appear.
\<close>

theorem per_machine_counts_keys:
  assumes "stdout (factory_main oracle (Document inp)) = [out]"
      and "json_get out ''status'' = Some (JStr ''ok'')"
  shows "\<exists>cat counts. parse_catalog inp = Inr cat \<and>
           json_get out ''per_machine_counts'' = Some counts \<and>
           json_keys counts =
             fst ` set (max_machines inp)
             \<union> {machine rc | n rc. (n, rc) \<in> set (recipe_map cat) \<and>
                   plan_rate (build_phase2 inp cat) (oracle (solver2 (build_phase2 inp cat))) n
                     > tolerance}"
proof -
  from factory_ok_path [OF assms] obtain cat where cat: "parse_catalog inp = Inr cat"
    and out: "out = factory_ok_result cat (build_phase2 inp cat) (oracle (solver2 (build_phase2 inp cat)))"
    by blast
  have m0k: "fst ` set (fold (\<lambda>(nm, cap). AList.update nm 0) (machine_caps cat) [])
      = fst ` set (max_machines inp)"
    by (simp add: fold_update_keys [of "\<lambda>k v. 0"] parse_catalog_keys(3) [OF cat])
  show ?thesis
    using cat by (simp add: out ok_result_fields json_keys_number_map emit_counts_keys m0k)
qed

theorem per_machine_counts_keys_witness:
  "\<exists>counts. json_get works_output ''per_machine_counts'' = Some counts \<and>
      json_keys counts = {''assembler'', ''furnace''}"
proof -
  have run: "stdout (factory_main works_oracle (Document works_instance)) = [works_output]"
    by (simp add: works_run)
  have st: "json_get works_output ''status'' = Some (JStr ''ok'')"
    by (simp add: works_output_def)
  have caps: "fst ` set (max_machines works_instance) = {''assembler''}"
    by (simp add: works_instance_def)
  from per_machine_counts_keys [OF run st] show ?thesis
  proof (elim exE conjE)
    fix cat counts
    assume c: "parse_catalog works_instance = Inr cat"
      and g: "json_get works_output ''per_machine_counts'' = Some counts"
      and k: "json_keys counts =
             fst ` set (max_machines works_instance)
             \<union> {machine rc | n rc. (n, rc) \<in> set (recipe_map cat) \<and>
                   plan_rate (build_phase2 works_instance cat)
                     (works_oracle (solver2 (build_phase2 works_instance cat))) n > tolerance}"
    from c have cat: "cat = works_catalog" by (simp add: works_parse)
    from k have "json_keys counts = {''assembler'', ''furnace''}"
      unfolding cat works_build2 works_used caps by auto
    with g show ?thesis by blast
  qed
qed

text \<open>
  Claim C6 as stated fails on the example factory: the furnace is not listed under
  \<open>limits.max_machines\<close>, the plan runs 5 crafts per minute on it, and
  \<open>per_machine_counts\<close> has the key \<open>furnace\<close>.
\<close>

theorem uncapped_machine_counterexample:
  "stdout (factory_main works_oracle (Document works_instance)) = [works_output] \<and>
   json_get works_output ''status'' = Some (JStr ''ok'') \<and>
   ''furnace'' \<notin> fst ` set (max_machines works_instance) \<and>
   json_get works_output ''per_machine_counts''
     = Some (JObj [(''assembler'', JNum 0), (''furnace'', JNum 5)])"
proof -
  have "stdout (factory_main works_oracle (Document works_instance)) = [works_output]"
    by (simp add: works_run)
  moreover have "''furnace'' \<notin> fst ` set (max_machines works_instance)"
    by (simp add: works_instance_def)
  ultimately show ?thesis by (simp add: works_output_def)
qed

text \<open>
  Claim C8. In every factory output with status \<open>ok\<close>, \<open>per_machine_counts\<close> has a
  key for every machine listed under \<open>limits.max_machines\<close>,
  \<open>per_recipe_crafts_per_min\<close> has exactly the recipes as keys, and
  \<open>raw_consumption_per_min\<close> has exactly the keys of \<open>limits.raw_supply_per_min\<close>. A
  recipe's entry is its rate when that exceeds \<open>tolerance\<close> and 0 otherwise; a capped
  machine's entry is the machines used by the recipes above \<open>tolerance\<close> on it, which
  is 0 when there is none; a raw item's entry is its consumption when that exceeds
  \<open>tolerance\<close> and 0 otherwise.
\<close>

theorem factory_ok_keys:
  assumes "stdout (factory_main oracle (Document inp)) = [out]"
      and "json_get out ''status'' = Some (JStr ''ok'')"
  shows "\<exists>cat crafts counts cons. parse_catalog inp = Inr cat \<and>
           json_get out ''per_recipe_crafts_per_min'' = Some crafts \<and>
           json_get out ''per_machine_counts'' = Some counts \<and>
           json_get out ''raw_consumption_per_min'' = Some cons \<and>
           json_keys crafts = fst ` set (recipes inp) \<and>
           fst ` set (max_machines inp) \<subseteq> json_keys counts \<and>
           json_keys cons = fst ` set (raw_supply_per_min inp) \<and>
           (let p = build_phase2 inp cat; r = oracle (solver2 p)
            in (\<forall>n \<in> fst ` set (recipes inp).
                  json_get crafts n
                    = Some (JNum (if plan_rate p r n > tolerance then plan_rate p r n else 0))) \<and>
               (\<forall>m \<in> fst ` set (max_machines inp).
                  json_get counts m = Some (JNum (machines_used p r (recipe_map cat) m))) \<and>
               (\<forall>i \<in> fst ` set (raw_supply_per_min inp).
                  json_get cons i
                    = Some (JNum (if consumption p r i > tolerance then consumption p r i else 0))))"
proof -
  from factory_ok_path [OF assms] obtain cat where cat: "parse_catalog inp = Inr cat"
    and out: "out = factory_ok_result cat (build_phase2 inp cat) (oracle (solver2 (build_phase2 inp cat)))"
    by blast
  note k = parse_catalog_keys [OF cat]
  let ?p = "build_phase2 inp cat"
  let ?r = "oracle (solver2 ?p)"
  let ?c0 = "fold (\<lambda>(nm, rc). AList.update nm 0) (recipe_map cat) []"
  let ?m0 = "fold (\<lambda>(nm, cap). AList.update nm 0) (machine_caps cat) []"
  let ?acc = "fold (emit_recipe ?p ?r) (recipe_map cat) (?c0, ?m0)"
  let ?cons = "fold (emit_raw cat ?p ?r) (raw_items cat) []"
  have c0k: "fst ` set ?c0 = fst ` set (recipes inp)"
    by (simp add: fold_update_keys [of "\<lambda>k v. 0"] k(1))
  have c0v: "map_of ?c0 n = (if n \<in> fst ` set (recipes inp) then Some 0 else None)" for n
    by (simp add: fold_update_const k(1))
  have m0k: "fst ` set ?m0 = fst ` set (max_machines inp)"
    by (simp add: fold_update_keys [of "\<lambda>k v. 0"] k(3))
  have m0v: "map_of ?m0 m = (if m \<in> fst ` set (max_machines inp) then Some 0 else None)" for m
    by (simp add: fold_update_const k(3))
  have sub: "set (raw_items cat) \<subseteq> fst ` set (raw_caps cat)" using k(4,5) by simp
  have crafts_keys: "json_keys (number_map (fst ?acc)) = fst ` set (recipes inp)"
    using k(1) by (auto simp: json_keys_number_map emit_crafts_keys c0k) force
  have counts_keys: "fst ` set (max_machines inp) \<subseteq> json_keys (number_map (snd ?acc))"
    by (simp add: json_keys_number_map emit_counts_keys m0k)
  have cons_keys: "json_keys (number_map ?cons) = fst ` set (raw_supply_per_min inp)"
    by (simp add: json_keys_number_map emit_raw_keys [OF sub] k(5))
  have crafts_val: "json_get (number_map (fst ?acc)) n
      = Some (JNum (if plan_rate ?p ?r n > tolerance then plan_rate ?p ?r n else 0))"
    if n: "n \<in> fst ` set (recipes inp)" for n
  proof -
    from n k(1) have "\<exists>rc. (n, rc) \<in> set (recipe_map cat)" by force
    then show ?thesis
      using n by (simp add: json_get_number_map emit_crafts_value c0v)
  qed
  have counts_val: "json_get (number_map (snd ?acc)) m
      = Some (JNum (machines_used ?p ?r (recipe_map cat) m))"
    if m: "m \<in> fst ` set (max_machines inp)" for m
  proof -
    have "m \<in> fst ` set (snd ?acc)" using m by (simp add: emit_counts_keys m0k)
    then obtain v where v: "map_of (snd ?acc) m = Some v"
      by (auto simp: map_of_keys)
    then have "v = at_key (snd ?acc) m 0" by (simp add: at_key_def)
    also have "\<dots> = machines_used ?p ?r (recipe_map cat) m"
    proof -
      have "at_key ?m0 m 0 = 0" by (simp add: at_key_def m0v)
      then show ?thesis by (simp add: emit_counts_value)
    qed
    finally show ?thesis using v by (simp add: json_get_number_map)
  qed
  have cons_val: "json_get (number_map ?cons) i
      = Some (JNum (if consumption ?p ?r i > tolerance then consumption ?p ?r i else 0))"
    if "i \<in> fst ` set (raw_supply_per_min inp)" for i
    using that k(5) by (simp add: json_get_number_map emit_raw_fold [OF sub])
  show ?thesis
    apply (rule exI [of _ cat])
    apply (rule exI [of _ "number_map (fst ?acc)"])
    apply (rule exI [of _ "number_map (snd ?acc)"])
    apply (rule exI [of _ "number_map ?cons"])
    using cat crafts_keys counts_keys cons_keys crafts_val counts_val cons_val
    by (simp add: out ok_result_fields Let_def)
qed

theorem factory_ok_keys_witness:
  "\<exists>crafts counts cons.
      json_get works_output ''per_recipe_crafts_per_min'' = Some crafts \<and>
      json_get works_output ''per_machine_counts'' = Some counts \<and>
      json_get works_output ''raw_consumption_per_min'' = Some cons \<and>
      json_keys crafts = {''plate'', ''rod''} \<and> {''assembler''} \<subseteq> json_keys counts \<and>
      json_keys cons = {''coal'', ''ore''} \<and>
      json_get crafts ''rod'' = Some (JNum 0) \<and>
      json_get counts ''assembler'' = Some (JNum 0) \<and>
      json_get cons ''coal'' = Some (JNum 0)"
proof -
  have run: "stdout (factory_main works_oracle (Document works_instance)) = [works_output]"
    by (simp add: works_run)
  have st: "json_get works_output ''status'' = Some (JStr ''ok'')"
    by (simp add: works_output_def)
  have keys: "fst ` set (recipes works_instance) = {''plate'', ''rod''}"
    "fst ` set (max_machines works_instance) = {''assembler''}"
    "fst ` set (raw_supply_per_min works_instance) = {''coal'', ''ore''}"
    by (simp_all add: works_instance_def insert_commute)
  have used: "machines_used works_phase2 (works_oracle (solver2 works_phase2))
       (recipe_map works_catalog) ''assembler'' = 0"
    by (simp add: machines_used_def works_catalog_def works_rates)
  have coal: "consumption works_phase2 (works_oracle (solver2 works_phase2)) ''coal'' = 0"
    by (simp add: consumption_def works_phase2_def works_oracle_def at_key_def)
  from factory_ok_keys [OF run st] show ?thesis
  proof (elim exE conjE)
    fix cat crafts counts cons
    assume c: "parse_catalog works_instance = Inr cat"
      and g: "json_get works_output ''per_recipe_crafts_per_min'' = Some crafts"
        "json_get works_output ''per_machine_counts'' = Some counts"
        "json_get works_output ''raw_consumption_per_min'' = Some cons"
      and k: "json_keys crafts = fst ` set (recipes works_instance)"
        "fst ` set (max_machines works_instance) \<subseteq> json_keys counts"
        "json_keys cons = fst ` set (raw_supply_per_min works_instance)"
      and v: "let p = build_phase2 works_instance cat; r = works_oracle (solver2 p)
            in (\<forall>n \<in> fst ` set (recipes works_instance).
                  json_get crafts n
                    = Some (JNum (if plan_rate p r n > tolerance then plan_rate p r n else 0))) \<and>
               (\<forall>m \<in> fst ` set (max_machines works_instance).
                  json_get counts m = Some (JNum (machines_used p r (recipe_map cat) m))) \<and>
               (\<forall>i \<in> fst ` set (raw_supply_per_min works_instance).
                  json_get cons i
                    = Some (JNum (if consumption p r i > tolerance then consumption p r i else 0)))"
    from c have cat: "cat = works_catalog" by (simp add: works_parse)
    from v have "json_get crafts ''rod'' = Some (JNum 0)"
      "json_get counts ''assembler'' = Some (JNum 0)"
      "json_get cons ''coal'' = Some (JNum 0)"
      unfolding cat works_build2 Let_def keys
      by (simp_all add: works_rates used coal tolerance_def)
    with g k show ?thesis unfolding keys by blast
  qed
qed

subsection \<open>The bottleneck certificate\<close>

lemma usage_row_step:
  "snd (make_usage_row (nm, cap) (s, rows)) = AList.update nm (length (constraints s)) rows"
  by (simp add: make_usage_row_def MakeRowConstraint_def)

lemma fold_usage_rows_keys:
  "fst ` set (snd (fold make_usage_row caps acc)) = fst ` set (snd acc) \<union> fst ` set caps"
proof (induction caps arbitrary: acc)
  case Nil
  show ?case by simp
next
  case (Cons c caps)
  obtain nm cap where c: "c = (nm, cap)" by (cases c)
  obtain s rows where acc: "acc = (s, rows)" by (cases acc)
  show ?case by (simp add: c acc Cons.IH usage_row_step update_key_set)
qed

lemma fold_usage_rows_distinct:
  "distinct (map fst (snd acc)) \<Longrightarrow> distinct (map fst (snd (fold make_usage_row caps acc)))"
proof (induction caps arbitrary: acc)
  case Nil
  then show ?case by simp
next
  case (Cons c caps)
  obtain nm cap where c: "c = (nm, cap)" by (cases c)
  obtain s rows where acc: "acc = (s, rows)" by (cases acc)
  from Cons.prems have "distinct (map fst (snd (make_usage_row c acc)))"
    by (simp add: c acc usage_row_step AList.distinct_update)
  from Cons.IH [OF this] show ?case by simp
qed

lemma balance_row_step:
  "snd (make_balance_row cat item (s, rows)) = AList.update item (length (constraints s)) rows"
  by (simp add: make_balance_row_def MakeRowConstraint_def Let_def)

lemma fold_balance_rows_keys:
  "fst ` set (snd (fold (make_balance_row cat) items acc)) = fst ` set (snd acc) \<union> set items"
proof (induction items arbitrary: acc)
  case Nil
  show ?case by simp
next
  case (Cons item items)
  obtain s rows where acc: "acc = (s, rows)" by (cases acc)
  show ?case by (simp add: acc Cons.IH balance_row_step update_key_set)
qed

lemma fold_balance_rows_distinct:
  "distinct (map fst (snd acc)) \<Longrightarrow>
     distinct (map fst (snd (fold (make_balance_row cat) items acc)))"
proof (induction items arbitrary: acc)
  case Nil
  then show ?case by simp
next
  case (Cons item items)
  obtain s rows where acc: "acc = (s, rows)" by (cases acc)
  from Cons.prems have "distinct (map fst (snd (make_balance_row cat item acc)))"
    by (simp add: acc balance_row_step AList.distinct_update)
  from Cons.IH [OF this] show ?case by simp
qed

lemma phase1_maps:
  "fst ` set (machine_usage (build_phase1 inp cat)) = fst ` set (machine_caps cat)"
  "distinct (map fst (machine_usage (build_phase1 inp cat)))"
  "fst ` set (item_balance (build_phase1 inp cat)) = insert (target_item inp) (set (all_items cat))"
  "distinct (map fst (item_balance (build_phase1 inp cat)))"
  by (simp_all add: build_phase1_def Let_def split_beta fold_usage_rows_keys
      fold_usage_rows_distinct fold_balance_rows_keys fold_balance_rows_distinct
      update_key_set AList.distinct_update)

lemma hint_fold_set:
  "set (fold (\<lambda>(k, row) hints. if P k row then insort_insert (f k) hints else hints) xs h)
     = set h \<union> {f k | k row. (k, row) \<in> set xs \<and> P k row}"
proof (induction xs arbitrary: h)
  case Nil
  show ?case by simp
next
  case (Cons e xs)
  obtain k row where e: "e = (k, row)" by (cases e)
  show ?case by (auto simp: e Cons.IH set_insort_insert)
qed

lemma hint_fold_sorted:
  "sorted h \<Longrightarrow> distinct h \<Longrightarrow>
     sorted (fold (\<lambda>(k, row) hints. if P k row then insort_insert (f k) hints else hints) xs h) \<and>
     distinct (fold (\<lambda>(k, row) hints. if P k row then insort_insert (f k) hints else hints) xs h)"
proof (induction xs arbitrary: h)
  case Nil
  then show ?case by simp
next
  case (Cons e xs)
  obtain k row where e: "e = (k, row)" by (cases e)
  from Cons.prems show ?case
    by (simp add: e Cons.IH sorted_insort_insert distinct_insort_insert)
qed

lemma hints_before_fallback:
  fixes r :: lp_result
  assumes cat: "parse_catalog inp = Inr cat"
  defines "p \<equiv> build_phase1 inp cat"
  defines "h \<equiv> constraint_hints cat p r"
  shows "set h = binding_hints inp p r" and "sorted h" and "distinct h"
proof -
  note k = parse_catalog_keys [OF cat]
  note m = phase1_maps [of inp cat, folded p_def]
  have A: "{nm @ '' cap'' | nm row. (nm, row) \<in> set (machine_usage p) \<and> dual_value r row > tolerance}
      = {m @ '' cap'' | m. m \<in> fst ` set (max_machines inp) \<and>
                        dual_value r (at_key (machine_usage p) m 0) > tolerance}"
    using distinct_pairs [OF m(2), where d = 0] m(1) k(3) by auto
  have raw: "set (raw_items cat) \<subseteq> fst ` set (item_balance p)"
    using k(6) m(3) by simp
  have B: "{item @ '' supply'' | item row. (item, row) \<in> set (item_balance p) \<and>
              item \<in> set (raw_items cat) \<and> dual_value r row > tolerance}
      = {i @ '' supply'' | i. i \<in> fst ` set (raw_supply_per_min inp) \<and>
                              dual_value r (at_key (item_balance p) i 0) > tolerance}"
    (is "?L = ?R")
  proof (intro set_eqI iffI)
    fix x
    assume "x \<in> ?L"
    then obtain item row where x: "x = item @ '' supply''"
      and mem: "(item, row) \<in> set (item_balance p)"
      and it: "item \<in> set (raw_items cat)" and d: "dual_value r row > tolerance"
      by blast
    from distinct_pairs [OF m(4), of item row 0] mem have "at_key (item_balance p) item 0 = row"
      by simp
    with x it d k(5) show "x \<in> ?R" by auto
  next
    fix x
    assume "x \<in> ?R"
    then obtain i where x: "x = i @ '' supply''"
      and i: "i \<in> fst ` set (raw_supply_per_min inp)"
      and d: "dual_value r (at_key (item_balance p) i 0) > tolerance"
      by blast
    from i k(5) have it: "i \<in> set (raw_items cat)" by simp
    with raw have "i \<in> fst ` set (item_balance p)" by blast
    with distinct_pairs [OF m(4), of i "at_key (item_balance p) i 0" 0]
    have "(i, at_key (item_balance p) i 0) \<in> set (item_balance p)" by simp
    with x it d show "x \<in> ?L" by blast
  qed
  have "set h = (set [] \<union> {nm @ '' cap'' | nm row. (nm, row) \<in> set (machine_usage p) \<and>
                                    dual_value r row > tolerance})
      \<union> {item @ '' supply'' | item row. (item, row) \<in> set (item_balance p) \<and>
              item \<in> set (raw_items cat) \<and> dual_value r row > tolerance}"
    unfolding h_def constraint_hints_def hint_fold_set by (rule refl)
  then show "set h = binding_hints inp p r"
    unfolding A B binding_hints_def by simp
  have "sorted (fold (\<lambda>(nm, row) hints.
                          if dual_value r row > tolerance then insort_insert (nm @ '' cap'') hints
                          else hints) (machine_usage p) [])
      \<and> distinct (fold (\<lambda>(nm, row) hints.
                          if dual_value r row > tolerance then insort_insert (nm @ '' cap'') hints
                          else hints) (machine_usage p) [])"
    by (rule hint_fold_sorted) simp_all
  then have "sorted h \<and> distinct h"
    unfolding h_def constraint_hints_def by (intro hint_fold_sorted) simp_all
  then show "sorted h" and "distinct h" by simp_all
qed

lemma hints_fallback:
  fixes a b :: string and c :: bool
  assumes "sorted h" and "distinct h"
  defines "hs \<equiv> (if h = [] \<and> c then insort_insert a h
                   else if h = [] then insort_insert b h else h)"
  shows "sorted hs" and "distinct hs"
    and "set hs = (if set h \<noteq> {} then set h else if c then {a} else {b})"
  using assms(1,2) by (auto simp: hs_def insort_insert_key_def)

text \<open>
  Claim C5. Whenever Phase 1 is solved (status optimal or feasible) with
  \<open>max_T < requested_target_rate - tolerance\<close>, the tool prints status \<open>infeasible\<close>
  and \<open>bottleneck_hint\<close> is a sorted array without repetition whose elements are
  exactly \<open>"<machine> cap"\<close> for each capped machine whose Phase-1 row has a dual value
  above \<open>tolerance\<close> and \<open>"<item> supply"\<close> for each raw item whose balance row has
  one; if there is no such hint, it is the single hint
  \<open>"Target rate conflicts with other constraints"\<close> when \<open>max_T > tolerance\<close>, and
  \<open>"Unknown bottleneck, possibly no production path"\<close> otherwise.
\<close>

theorem bottleneck_hint_set:
  assumes cat: "parse_catalog inp = Inr cat"
      and st: "result_status (oracle (solver (build_phase1 inp cat))) = MP_OPTIMAL \<or>
               result_status (oracle (solver (build_phase1 inp cat))) = MP_FEASIBLE"
      and low: "solution_value (oracle (solver (build_phase1 inp cat))) (T_var (build_phase1 inp cat))
                  < requested_target_rate inp - tolerance"
  shows "\<exists>out hints. stdout (factory_main oracle (Document inp)) = [out] \<and>
           json_get out ''status'' = Some (JStr ''infeasible'') \<and>
           json_get out ''bottleneck_hint'' = Some (JArr (map JStr hints)) \<and>
           sorted hints \<and> distinct hints \<and>
           set hints =
             (let p = build_phase1 inp cat; r = oracle (solver p);
                  max_T = solution_value r (T_var p); H = binding_hints inp p r
              in if H \<noteq> {} then H
                 else if max_T > tolerance
                 then {''Target rate conflicts with other constraints''}
                 else {''Unknown bottleneck, possibly no production path''})"
proof -
  let ?p = "build_phase1 inp cat"
  let ?r = "oracle (solver ?p)"
  let ?T = "solution_value ?r (T_var ?p)"
  let ?hints = "bottleneck_hints cat ?p ?r ?T"
  let ?out = "factory_infeasible_result cat ?p ?r ?T"
  note h = hints_before_fallback [OF cat, of ?r]
  note f = hints_fallback [OF h(2,3), of "?T > tolerance"
      "''Target rate conflicts with other constraints''"
      "''Unknown bottleneck, possibly no production path''"]
  have sv: "solved (result_status ?r)"
    using st by (auto simp: solved_def)
  have run: "stdout (factory_main oracle (Document inp)) = [?out]"
    by (simp add: factory_main_def solve_factory_def cat sv low Let_def effects.defs)
  have s: "sorted ?hints" "distinct ?hints"
    unfolding bottleneck_hints_def Let_def using f(1,2) by simp_all
  have e: "set ?hints = (if binding_hints inp ?p ?r \<noteq> {} then binding_hints inp ?p ?r
                 else if ?T > tolerance
                 then {''Target rate conflicts with other constraints''}
                 else {''Unknown bottleneck, possibly no production path''})"
    unfolding bottleneck_hints_def Let_def using f(3) by (simp only: h(1))
  have g: "json_get ?out ''status'' = Some (JStr ''infeasible'')"
    "json_get ?out ''bottleneck_hint'' = Some (JArr (map JStr ?hints))"
    by (simp_all add: factory_infeasible_result_def)
  show ?thesis
    apply (rule exI [of _ ?out])
    apply (rule exI [of _ ?hints])
    using run s e g unfolding Let_def by blast
qed

theorem bottleneck_hint_set_witness:
  "\<exists>out hints. stdout (factory_main works_oracle (Document starved_instance)) = [out] \<and>
      json_get out ''status'' = Some (JStr ''infeasible'') \<and>
      json_get out ''bottleneck_hint'' = Some (JArr (map JStr hints)) \<and>
      set hints = {''ore supply''}"
proof -
  let ?r = "works_oracle (solver works_phase1)"
  have st: "result_status (works_oracle (solver (build_phase1 starved_instance works_catalog))) = MP_OPTIMAL \<or>
            result_status (works_oracle (solver (build_phase1 starved_instance works_catalog))) = MP_FEASIBLE"
    by (simp add: works_oracle_def)
  have low: "solution_value (works_oracle (solver (build_phase1 starved_instance works_catalog)))
               (T_var (build_phase1 starved_instance works_catalog))
             < requested_target_rate starved_instance - tolerance"
    by (simp add: starved_build1 works_oracle_def works_phase1_def starved_instance_def tolerance_def)
  have H: "binding_hints starved_instance works_phase1 ?r = {''ore supply''}"
    by (auto simp: binding_hints_def starved_instance_def works_instance_def works_phase1_def
        works_oracle_def at_key_def tolerance_def)
  from bottleneck_hint_set [of starved_instance works_catalog works_oracle, OF starved_parse st low]
  obtain out hints where o: "stdout (factory_main works_oracle (Document starved_instance)) = [out]"
    and s: "json_get out ''status'' = Some (JStr ''infeasible'')"
    and b: "json_get out ''bottleneck_hint'' = Some (JArr (map JStr hints))"
    and e: "set hints =
             (let p = build_phase1 starved_instance works_catalog; r = works_oracle (solver p);
                  max_T = solution_value r (T_var p); H = binding_hints starved_instance p r
              in if H \<noteq> {} then H
                 else if max_T > tolerance
                 then {''Target rate conflicts with other constraints''}
                 else {''Unknown bottleneck, possibly no production path''})"
    by blast
  from e have "set hints = {''ore supply''}"
    unfolding starved_build1 Let_def H by simp
  with o s b show ?thesis by blast
qed

subsection \<open>Solver failure in Phase 1\<close>

text \<open>
  Claim C9, as the code has it. If the Phase-1 solve returns a status that is neither
  optimal nor feasible, the tool prints status \<open>infeasible\<close> with
  \<open>max_feasible_target_per_min = 0\<close> and the single hint \<open>"Initial solver failure"\<close>,
  and the process exits with status 0.
\<close>

theorem initial_solver_failure:
  assumes "parse_catalog inp = Inr cat"
      and "result_status (oracle (solver (build_phase1 inp cat))) \<noteq> MP_OPTIMAL"
      and "result_status (oracle (solver (build_phase1 inp cat))) \<noteq> MP_FEASIBLE"
  shows "factory_main oracle (Document inp) =
           \<lparr> stdout = [JObj [(''status'', JStr ''infeasible''),
                             (''max_feasible_target_per_min'', JNum 0),
                             (''bottleneck_hint'', JArr [JStr ''Initial solver failure''])]],
             stderr = [], solver_runs = 1, exit_code = 0 \<rparr>"
  using assms
  by (simp add: factory_main_def solve_factory_def Let_def solved_def effects.defs
      initial_failure_result_def json_init_def)

theorem initial_solver_failure_witness:
  "factory_main unbounded_oracle (Document free_instance) =
     \<lparr> stdout = [JObj [(''status'', JStr ''infeasible''),
                       (''max_feasible_target_per_min'', JNum 0),
                       (''bottleneck_hint'', JArr [JStr ''Initial solver failure''])]],
       stderr = [], solver_runs = 1, exit_code = 0 \<rparr>"
proof -
  have "result_status (unbounded_oracle (solver (build_phase1 free_instance free_catalog))) \<noteq> MP_OPTIMAL"
    and "result_status (unbounded_oracle (solver (build_phase1 free_instance free_catalog))) \<noteq> MP_FEASIBLE"
    by (simp_all add: unbounded_oracle_def)
  with free_parse show ?thesis by (rule initial_solver_failure)
qed

text \<open>
  Claim C9 as stated fails on the factory without caps: the solver answers \<open>UNBOUNDED\<close>
  and the hint printed is \<open>"Initial solver failure"\<close>, not \<open>"solver failure"\<close>.
\<close>

theorem solver_failure_hint_counterexample:
  "result_status (unbounded_oracle (solver (build_phase1 free_instance free_catalog))) = MP_UNBOUNDED \<and>
   stdout (factory_main unbounded_oracle (Document free_instance)) = [free_output] \<and>
   json_get free_output ''bottleneck_hint'' = Some (JArr [JStr ''Initial solver failure'']) \<and>
   json_get free_output ''bottleneck_hint'' \<noteq> Some (JArr [JStr ''solver failure''])"
  by (simp add: free_run unbounded_oracle_def free_output_def)


section \<open>Factory: properties of the Phase-2 plan\<close>

subsection \<open>Setting coefficients\<close>

lemma same_frame_refl: "same_frame s s"
  by (simp add: same_frame_def)

lemma same_frame_trans: "same_frame s s' \<Longrightarrow> same_frame s' s'' \<Longrightarrow> same_frame s s''"
  by (simp add: same_frame_def)

lemma map_field_update:
  assumes "f (g (xs ! i)) = f (xs ! i)"
  shows "map f (xs[i := g (xs ! i)]) = map f xs"
proof (cases "i < length xs")
  case True
  then show ?thesis using assms by (simp add: map_update list_update_same_conv)
next
  case False
  then have "length xs \<le> i" by simp
  then have "xs[i := g (xs ! i)] = xs" by (rule list_update_beyond)
  then show ?thesis by simp
qed

lemma SetCoefficient_frame: "same_frame s (SetCoefficient row var c s)"
  unfolding same_frame_def SetCoefficient_def
  by (simp add: map_field_update [where g = "\<lambda>r. r\<lparr> coefficients := AList.update var c (coefficients r) \<rparr>"])

lemma SetCoefficient_cf:
  "row < length (constraints s) \<Longrightarrow>
     cf (SetCoefficient row var c s) j v = (if j = row \<and> v = var then c else cf s j v)"
  by (simp add: cf_def SetCoefficient_def nth_list_update at_key_update)

lemma SetCoefficient_other_row:
  "j \<noteq> row \<Longrightarrow> constraints (SetCoefficient row var c s) ! j = constraints s ! j"
  by (simp add: SetCoefficient_def)

lemma SetObjectiveCoefficient_constraints:
  "constraints (SetObjectiveCoefficient var c s) = constraints s"
  "variables (SetObjectiveCoefficient var c s) = variables s"
  by (simp_all add: SetObjectiveCoefficient_def)

lemma SetObjectiveCoefficient_frame: "same_frame s (SetObjectiveCoefficient var c s)"
  by (simp add: same_frame_def SetObjectiveCoefficient_constraints)

lemma SetObjectiveCoefficient_cf: "cf (SetObjectiveCoefficient var c s) j v = cf s j v"
  by (simp add: cf_def SetObjectiveCoefficient_constraints)

lemma row_map_frame: "same_frame s s' \<Longrightarrow> row_map s m \<Longrightarrow> row_map s' m"
  by (simp add: same_frame_def row_map_def)

lemma item_loop_Cons:
  "item_loop balance v g ((item, qty) # items) s =
     item_loop balance v g items
       (if count_key balance item then SetCoefficient (at_key balance item 0) v (g qty) s else s)"
  by (simp add: item_loop_def)

lemma item_loop_frame: "same_frame s (item_loop balance v g items s)"
proof (induction items arbitrary: s)
  case Nil
  show ?case by (simp add: item_loop_def same_frame_refl)
next
  case (Cons p items)
  obtain item qty where p: "p = (item, qty)" by (cases p)
  show ?case
    unfolding p item_loop_Cons
    by (rule same_frame_trans [OF _ Cons.IH]) (simp add: SetCoefficient_frame same_frame_refl)
qed

lemma item_loop_other_var:
  "row_map s balance \<Longrightarrow> v' \<noteq> v \<Longrightarrow> cf (item_loop balance v g items s) j v' = cf s j v'"
proof (induction items arbitrary: s)
  case Nil
  show ?case by (simp add: item_loop_def)
next
  case (Cons p items)
  obtain item qty where p: "p = (item, qty)" by (cases p)
  let ?s1 = "if count_key balance item then SetCoefficient (at_key balance item 0) v (g qty) s else s"
  have f: "same_frame s ?s1" by (simp add: SetCoefficient_frame same_frame_refl)
  have valid: "count_key balance item \<Longrightarrow> at_key balance item 0 < length (constraints s)"
    using Cons.prems(1) by (auto simp: row_map_def rows_of_def count_key_def)
  have "cf ?s1 j v' = cf s j v'"
    using Cons.prems(2) valid by (simp add: SetCoefficient_cf)
  with Cons.IH [OF row_map_frame [OF f Cons.prems(1)] Cons.prems(2)]
  show ?case unfolding p item_loop_Cons by simp
qed

lemma item_loop_other_row:
  "j \<notin> rows_of balance \<Longrightarrow> constraints (item_loop balance v g items s) ! j = constraints s ! j"
proof (induction items arbitrary: s)
  case Nil
  show ?case by (simp add: item_loop_def)
next
  case (Cons p items)
  obtain item qty where p: "p = (item, qty)" by (cases p)
  have "count_key balance item \<Longrightarrow> j \<noteq> at_key balance item 0"
    using Cons.prems by (auto simp: rows_of_def count_key_def)
  then show ?case
    unfolding p item_loop_Cons using Cons.IH [OF Cons.prems]
    by (simp add: SetCoefficient_other_row)
qed

lemma item_loop_cf:
  assumes "row_map s balance" and "distinct (map fst items)" and "i \<in> fst ` set balance"
  shows "cf (item_loop balance v g items s) (at_key balance i 0) v
           = (if i \<in> fst ` set items then g (at_key items i 0) else cf s (at_key balance i 0) v)"
  using assms(1,2)
proof (induction items arbitrary: s)
  case Nil
  show ?case by (simp add: item_loop_def)
next
  case (Cons p items)
  obtain item qty where p: "p = (item, qty)" by (cases p)
  let ?s1 = "if count_key balance item then SetCoefficient (at_key balance item 0) v (g qty) s else s"
  have f: "same_frame s ?s1" by (simp add: SetCoefficient_frame same_frame_refl)
  from Cons.prems(2) have d: "distinct (map fst items)" and fresh: "item \<notin> fst ` set items"
    by (simp_all add: p)
  note IH = Cons.IH [OF row_map_frame [OF f Cons.prems(1)] d]
  have valid: "count_key balance item \<Longrightarrow> at_key balance item 0 < length (constraints s)"
    using Cons.prems(1) by (auto simp: row_map_def rows_of_def count_key_def)
  have inj: "count_key balance item \<Longrightarrow> at_key balance item 0 = at_key balance i 0 \<longleftrightarrow> item = i"
    using Cons.prems(1) assms(3) by (auto simp: row_map_def count_key_def inj_on_def)
  show ?case
  proof (cases "item = i")
    case True
    with assms(3) have ck: "count_key balance item" by (simp add: count_key_def)
    have "cf ?s1 (at_key balance i 0) v = g qty"
      using ck valid True by (simp add: SetCoefficient_cf)
    with IH fresh True show ?thesis
      unfolding p item_loop_Cons by (simp add: at_key_def)
  next
    case False
    have "cf ?s1 (at_key balance i 0) v = cf s (at_key balance i 0) v"
      using valid inj False by (auto simp: SetCoefficient_cf)
    with IH False show ?thesis
      unfolding p item_loop_Cons by (auto simp: at_key_def)
  qed
qed

subsection \<open>The loop that populates the Phase-2 model\<close>

lemma set_item_balances_loops:
  "set_item_balances balance x nm r s =
     item_loop balance (at_key x nm 0) (\<lambda>q. q * prod_mult r) (out_items r)
       (item_loop balance (at_key x nm 0) (\<lambda>q. - q) (in_items r) s)"
  by (simp add: set_item_balances_def item_loop_def)

lemma set_machine_usage_frame: "same_frame s (set_machine_usage usage x nm r s)"
  by (simp add: set_machine_usage_def SetCoefficient_frame same_frame_refl)

lemma SetCoefficient_other_var:
  "v \<noteq> var \<Longrightarrow> cf (SetCoefficient row var c s) j v = cf s j v"
proof (cases "row < length (constraints s)")
  case True
  assume "v \<noteq> var"
  with True show ?thesis by (simp add: SetCoefficient_cf)
next
  case False
  then have "length (constraints s) \<le> row" by simp
  then have "(constraints s)[row := (constraints s ! row)
          \<lparr> coefficients := AList.update var c (coefficients (constraints s ! row)) \<rparr>] = constraints s"
    by (rule list_update_beyond)
  then show ?thesis by (simp add: cf_def SetCoefficient_def)
qed

lemma phase2_step_frame: "same_frame s (phase2_step usage balance x (nm, r) s)"
proof -
  let ?s1 = "set_machine_usage usage x nm r s"
  let ?s2 = "SetObjectiveCoefficient (at_key x nm 0) (machine_cost_per_craft r) ?s1"
  let ?s3 = "item_loop balance (at_key x nm 0) (\<lambda>q. - q) (in_items r) ?s2"
  let ?s4 = "item_loop balance (at_key x nm 0) (\<lambda>q. q * prod_mult r) (out_items r) ?s3"
  have f1: "same_frame s ?s1" by (rule set_machine_usage_frame)
  have f2: "same_frame s ?s2" by (rule same_frame_trans [OF f1 SetObjectiveCoefficient_frame])
  have f3: "same_frame s ?s3" by (rule same_frame_trans [OF f2 item_loop_frame])
  have "same_frame s ?s4" by (rule same_frame_trans [OF f3 item_loop_frame])
  then show ?thesis
    unfolding phase2_step_def set_item_balances_loops prod.case .
qed

lemma phase2_step_other_var:
  assumes "row_map s balance" and "v \<noteq> at_key x nm 0"
  shows "cf (phase2_step usage balance x (nm, r) s) j v = cf s j v"
proof -
  let ?s1 = "set_machine_usage usage x nm r s"
  let ?s2 = "SetObjectiveCoefficient (at_key x nm 0) (machine_cost_per_craft r) ?s1"
  let ?s3 = "item_loop balance (at_key x nm 0) (\<lambda>q. - q) (in_items r) ?s2"
  have f2: "same_frame s ?s2"
    by (rule same_frame_trans [OF set_machine_usage_frame SetObjectiveCoefficient_frame])
  have f3: "same_frame s ?s3"
    by (rule same_frame_trans [OF f2 item_loop_frame])
  have "cf ?s1 j v = cf s j v"
    using assms(2) by (simp add: set_machine_usage_def SetCoefficient_other_var)
  then have "cf ?s2 j v = cf s j v" by (simp add: SetObjectiveCoefficient_cf)
  then have "cf ?s3 j v = cf s j v"
    using item_loop_other_var [OF row_map_frame [OF f2 assms(1)] assms(2)] by simp
  then show ?thesis
    unfolding phase2_step_def set_item_balances_loops prod.case
    using item_loop_other_var [OF row_map_frame [OF f3 assms(1)] assms(2)] by simp
qed

lemma phase2_step_other_row:
  assumes "j \<notin> rows_of balance" and "j \<notin> rows_of usage"
  shows "constraints (phase2_step usage balance x (nm, r) s) ! j = constraints s ! j"
proof -
  have "count_key usage (machine r) \<Longrightarrow> j \<noteq> at_key usage (machine r) 0"
    using assms(2) by (auto simp: rows_of_def count_key_def)
  then have "constraints (set_machine_usage usage x nm r s) ! j = constraints s ! j"
    by (simp add: set_machine_usage_def SetCoefficient_other_row)
  then show ?thesis
    unfolding phase2_step_def set_item_balances_loops prod.case
    by (simp add: item_loop_other_row [OF assms(1)] SetObjectiveCoefficient_constraints)
qed

lemma phase2_step_cf:
  assumes bal: "row_map s balance" and use: "row_map s usage"
      and disj: "rows_of balance \<inter> rows_of usage = {}"
      and wf: "well_formed r" and i: "i \<in> fst ` set balance"
  shows "cf (phase2_step usage balance x (nm, r) s) (at_key balance i 0) (at_key x nm 0)
           = lp_coefficient r i (cf s (at_key balance i 0) (at_key x nm 0))"
proof -
  let ?v = "at_key x nm 0"
  let ?j = "at_key balance i 0"
  let ?s1 = "set_machine_usage usage x nm r s"
  let ?s2 = "SetObjectiveCoefficient ?v (machine_cost_per_craft r) ?s1"
  let ?s3 = "item_loop balance ?v (\<lambda>q. - q) (in_items r) ?s2"
  have f2: "same_frame s ?s2"
    by (rule same_frame_trans [OF set_machine_usage_frame SetObjectiveCoefficient_frame])
  have f3: "same_frame s ?s3"
    by (rule same_frame_trans [OF f2 item_loop_frame])
  from i have j: "?j \<in> rows_of balance" by (simp add: rows_of_def)
  have "count_key usage (machine r) \<Longrightarrow> ?j \<noteq> at_key usage (machine r) 0"
    using j disj by (auto simp: rows_of_def count_key_def)
  moreover have "count_key usage (machine r) \<Longrightarrow> at_key usage (machine r) 0 < length (constraints s)"
    using use by (auto simp: row_map_def rows_of_def count_key_def)
  ultimately have "cf ?s1 ?j ?v = cf s ?j ?v"
    by (simp add: set_machine_usage_def SetCoefficient_cf)
  then have c2: "cf ?s2 ?j ?v = cf s ?j ?v" by (simp add: SetObjectiveCoefficient_cf)
  from wf have din: "distinct (map fst (in_items r))" and dout: "distinct (map fst (out_items r))"
    by (simp_all add: well_formed_def)
  have c3: "cf ?s3 ?j ?v = (if i \<in> fst ` set (in_items r) then - at_key (in_items r) i 0
                            else cf s ?j ?v)"
    using item_loop_cf [OF row_map_frame [OF f2 bal] din i, of ?v "\<lambda>q. - q"] c2 by simp
  show ?thesis
    unfolding phase2_step_def set_item_balances_loops prod.case
    using item_loop_cf [OF row_map_frame [OF f3 bal] dout i, of ?v "\<lambda>q. q * prod_mult r"] c3
    by (simp add: lp_coefficient_def)
qed

lemma phase2_fold_frame: "same_frame s (fold (phase2_step usage balance x) rs s)"
proof (induction rs arbitrary: s)
  case Nil
  show ?case by (simp add: same_frame_refl)
next
  case (Cons p rs)
  obtain nm r where p: "p = (nm, r)" by (cases p)
  show ?case
    unfolding p fold_simps
    by (rule same_frame_trans [OF phase2_step_frame Cons.IH])
qed

lemma phase2_fold_other_row:
  assumes "j \<notin> rows_of balance" and "j \<notin> rows_of usage"
  shows "constraints (fold (phase2_step usage balance x) rs s) ! j = constraints s ! j"
proof (induction rs arbitrary: s)
  case Nil
  show ?case by simp
next
  case (Cons p rs)
  obtain nm r where p: "p = (nm, r)" by (cases p)
  show ?case
    unfolding p fold_simps by (simp add: Cons.IH phase2_step_other_row [OF assms])
qed

lemma phase2_fold_other_var:
  assumes "row_map s balance" and "v \<notin> (\<lambda>(nm, r). at_key x nm 0) ` set rs"
  shows "cf (fold (phase2_step usage balance x) rs s) j v = cf s j v"
  using assms
proof (induction rs arbitrary: s)
  case Nil
  show ?case by simp
next
  case (Cons p rs)
  obtain nm r where p: "p = (nm, r)" by (cases p)
  from Cons.prems(2) have v: "v \<noteq> at_key x nm 0"
    and rest: "v \<notin> (\<lambda>(nm, r). at_key x nm 0) ` set rs"
    by (auto simp: p)
  have rm: "row_map (phase2_step usage balance x (nm, r) s) balance"
    by (rule row_map_frame [OF phase2_step_frame Cons.prems(1)])
  show ?case
    unfolding p fold_simps
    by (simp add: Cons.IH [OF rm rest] phase2_step_other_var [OF Cons.prems(1) v])
qed

lemma phase2_fold_cf:
  assumes "row_map s balance" and "row_map s usage"
      and "rows_of balance \<inter> rows_of usage = {}"
      and "\<forall>(nm, r) \<in> set rs. well_formed r"
      and "distinct (map (\<lambda>(nm, r). at_key x nm 0) rs)"
      and "i \<in> fst ` set balance" and "(nm, r) \<in> set rs"
  shows "cf (fold (phase2_step usage balance x) rs s) (at_key balance i 0) (at_key x nm 0)
           = lp_coefficient r i (cf s (at_key balance i 0) (at_key x nm 0))"
  using assms(1,2,4,5,7)
proof (induction rs arbitrary: s)
  case Nil
  then show ?case by simp
next
  case (Cons p rs)
  obtain nm' r' where p: "p = (nm', r')" by (cases p)
  let ?s1 = "phase2_step usage balance x (nm', r') s"
  have f: "same_frame s ?s1" by (rule phase2_step_frame)
  note rm = row_map_frame [OF f Cons.prems(1)] row_map_frame [OF f Cons.prems(2)]
  from Cons.prems(3) have wf': "well_formed r'" and wfs: "\<forall>(nm, r) \<in> set rs. well_formed r"
    by (auto simp: p)
  from Cons.prems(4) have fresh: "at_key x nm' 0 \<notin> (\<lambda>(nm, r). at_key x nm 0) ` set rs"
    and d: "distinct (map (\<lambda>(nm, r). at_key x nm 0) rs)"
    by (auto simp: p)
  show ?case
  proof (cases "(nm, r) \<in> set rs")
    case True
    then have "at_key x nm 0 \<in> (\<lambda>(nm, r). at_key x nm 0) ` set rs" by force
    with fresh have ne: "at_key x nm 0 \<noteq> at_key x nm' 0" by auto
    from Cons.IH [OF rm wfs d True]
    show ?thesis
      unfolding p fold_simps
      by (simp add: phase2_step_other_var [OF Cons.prems(1) ne])
  next
    case False
    with Cons.prems(5) have eq: "nm = nm'" "r = r'" by (auto simp: p)
    have "cf (fold (phase2_step usage balance x) rs ?s1) (at_key balance i 0) (at_key x nm' 0)
        = cf ?s1 (at_key balance i 0) (at_key x nm' 0)"
      by (rule phase2_fold_other_var [OF rm(1) fresh])
    then show ?thesis
      unfolding p fold_simps eq
      by (simp add: phase2_step_cf [OF Cons.prems(1,2) assms(3) wf' assms(6)])
  qed
qed

subsection \<open>Rows and variables in the order of their creation\<close>

lemma update_fresh: "k \<notin> fst ` set al \<Longrightarrow> AList.update k v al = al @ [(k, v)]"
  by (induction al) auto

lemma update_member:
  "(k', v') \<in> set (AList.update k v al) \<Longrightarrow> (k', v') = (k, v) \<or> (k', v') \<in> set al"
  by (induction al) (auto split: if_splits)

lemma upt_shift: "[a ..< a + Suc n] = a # [Suc a ..< Suc a + n]"
  using upt_conv_Cons [of a "a + Suc n"] by (simp del: upt_Suc)

lemma zip_upt_Cons:
  "zip (k # ks) [a ..< a + Suc (length ks)] = (k, a) # zip ks [Suc a ..< Suc a + length ks]"
  unfolding upt_shift by simp

lemma fold_make_x_explicit:
  "distinct (map fst rs) \<Longrightarrow> fst ` set x \<inter> fst ` set rs = {} \<Longrightarrow>
     fold make_x rs (s, x) =
       (s\<lparr> variables := variables s
              @ map (\<lambda>(nm, r). \<lparr> var_lb = 0, var_ub = infinity, var_name = nm \<rparr>) rs \<rparr>,
        x @ zip (map fst rs) [length (variables s) ..< length (variables s) + length rs])"
proof (induction rs arbitrary: s x)
  case Nil
  show ?case by simp
next
  case (Cons p rs)
  obtain nm r where p: "p = (nm, r)" by (cases p)
  let ?v = "\<lparr> var_lb = 0, var_ub = infinity, var_name = nm \<rparr>"
  let ?s1 = "s\<lparr> variables := variables s @ [?v] \<rparr>"
  from Cons.prems have fresh: "nm \<notin> fst ` set x" by (auto simp: p)
  have step: "make_x p (s, x) = (?s1, x @ [(nm, length (variables s))])"
    by (simp add: p make_x_def MakeNumVar_def update_fresh [OF fresh])
  from Cons.prems have d: "distinct (map fst rs)"
    and disj: "fst ` set (x @ [(nm, length (variables s))]) \<inter> fst ` set rs = {}"
    by (auto simp: p)
  show ?case
    unfolding fold_simps step Cons.IH [OF d disj]
    by (simp add: p zip_upt_Cons [of nm "map fst rs" "length (variables s)", simplified])
qed

lemma fold_make_row_explicit:
  "distinct items \<Longrightarrow> fst ` set rows \<inter> set items = {} \<Longrightarrow>
     fold (\<lambda>item. make_row (lb item) (ub item) item) items (s, rows) =
       (s\<lparr> constraints := constraints s
              @ map (\<lambda>item. \<lparr> row_lb = lb item, row_ub = ub item,
                               row_name = ''balance_'' @ item, coefficients = [] \<rparr>) items \<rparr>,
        rows @ zip items [length (constraints s) ..< length (constraints s) + length items])"
proof (induction items arbitrary: s rows)
  case Nil
  show ?case by simp
next
  case (Cons item items)
  let ?row = "\<lparr> row_lb = lb item, row_ub = ub item, row_name = ''balance_'' @ item,
                 coefficients = [] \<rparr>"
  let ?s1 = "s\<lparr> constraints := constraints s @ [?row] \<rparr>"
  from Cons.prems have fresh: "item \<notin> fst ` set rows" by auto
  have step: "make_row (lb item) (ub item) item (s, rows)
      = (?s1, rows @ [(item, length (constraints s))])"
    by (simp add: make_row_def MakeRowConstraint_def update_fresh [OF fresh])
  from Cons.prems have d: "distinct items"
    and disj: "fst ` set (rows @ [(item, length (constraints s))]) \<inter> set items = {}"
    by auto
  show ?case
    unfolding fold_simps step Cons.IH [OF d disj]
    by (simp add: zip_upt_Cons [of item items "length (constraints s)", simplified])
qed

lemma fold_make_usage_explicit:
  "distinct (map fst caps) \<Longrightarrow> fst ` set rows \<inter> fst ` set caps = {} \<Longrightarrow>
     fold make_usage_row caps (s, rows) =
       (s\<lparr> constraints := constraints s
              @ map (\<lambda>(nm, cap). \<lparr> row_lb = 0, row_ub = cap, row_name = ''cap_'' @ nm,
                                    coefficients = [] \<rparr>) caps \<rparr>,
        rows @ zip (map fst caps)
                 [length (constraints s) ..< length (constraints s) + length caps])"
proof (induction caps arbitrary: s rows)
  case Nil
  show ?case by simp
next
  case (Cons p caps)
  obtain nm cap where p: "p = (nm, cap)" by (cases p)
  let ?row = "\<lparr> row_lb = 0, row_ub = cap, row_name = ''cap_'' @ nm, coefficients = [] \<rparr>"
  let ?s1 = "s\<lparr> constraints := constraints s @ [?row] \<rparr>"
  from Cons.prems have fresh: "nm \<notin> fst ` set rows" by (auto simp: p)
  have step: "make_usage_row p (s, rows) = (?s1, rows @ [(nm, length (constraints s))])"
    by (simp add: p make_usage_row_def MakeRowConstraint_def update_fresh [OF fresh])
  from Cons.prems have d: "distinct (map fst caps)"
    and disj: "fst ` set (rows @ [(nm, length (constraints s))]) \<inter> fst ` set caps = {}"
    by (auto simp: p)
  show ?case
    unfolding fold_simps step Cons.IH [OF d disj]
    by (simp add: p zip_upt_Cons [of nm "map fst caps" "length (constraints s)", simplified])
qed

subsection \<open>The catalog holds each name once\<close>

lemma make_recipe_well_formed: "make_recipe inp nm data = Inr r \<Longrightarrow> well_formed r"
  by (auto simp: make_recipe_def well_formed_def Let_def fold_update_distinct [of "[]" "\<lambda>k v. v", simplified]
      split: option.splits)

lemma process_recipes_well_formed:
  "process_recipes inp rs (acc, items) = Inr (acc', items') \<Longrightarrow>
     \<forall>(n, r) \<in> set acc. well_formed r \<Longrightarrow> \<forall>(n, r) \<in> set acc'. well_formed r"
proof (induction rs arbitrary: acc items)
  case Nil
  then show ?case by simp
next
  case (Cons p rs)
  obtain nm data where p: "p = (nm, data)" by (cases p)
  from Cons.prems(1) obtain r where r: "make_recipe inp nm data = Inr r"
    and rest: "process_recipes inp rs (AList.update nm r acc,
             fold insort_insert (map fst (json_out data))
               (fold insort_insert (map fst (json_in data)) items)) = Inr (acc', items')"
    by (auto simp: p split: sum.splits)
  have "\<forall>(n, r) \<in> set (AList.update nm r acc). well_formed r"
    using Cons.prems(2) make_recipe_well_formed [OF r] by (auto dest!: update_member)
  from Cons.IH [OF rest this] show ?case .
qed

lemma process_recipes_items:
  "process_recipes inp rs (acc, items) = Inr (acc', items') \<Longrightarrow>
     sorted items \<Longrightarrow> distinct items \<Longrightarrow> sorted items' \<and> distinct items'"
proof (induction rs arbitrary: acc items)
  case Nil
  then show ?case by simp
next
  case (Cons p rs)
  obtain nm data where p: "p = (nm, data)" by (cases p)
  let ?items1 = "fold insort_insert (map fst (json_in data)) items"
  let ?items2 = "fold insort_insert (map fst (json_out data)) ?items1"
  from Cons.prems(1) obtain r where
    rest: "process_recipes inp rs (AList.update nm r acc, ?items2) = Inr (acc', items')"
    by (auto simp: p split: sum.splits)
  have "sorted ?items1 \<and> distinct ?items1"
    using Cons.prems(2,3) by (rule fold_insort_insert_sorted)
  then have "sorted ?items2 \<and> distinct ?items2"
    using fold_insort_insert_sorted [of ?items1] by blast
  with Cons.IH [OF rest] show ?case by blast
qed

lemma parse_catalog_distinct:
  assumes "parse_catalog inp = Inr cat"
  shows "\<forall>(n, r) \<in> set (recipe_map cat). well_formed r"
    and "distinct (raw_items cat)"
    and "distinct (intermediate_items cat)"
    and "distinct (map fst (machine_caps cat))"
proof -
  let ?raw = "fold insort_insert (map fst (raw_supply_per_min inp)) []"
  from assms obtain rs items where pr: "process_recipes inp (recipes inp) ([], ?raw) = Inr (rs, items)"
    and cat: "cat = \<lparr> recipe_map = rs, all_items = removeAll (target_item inp) items, raw_items = ?raw,
                       intermediate_items = filter (\<lambda>item. item \<notin> set ?raw) (removeAll (target_item inp) items),
                       machine_caps = fold (\<lambda>(m, cap). AList.update m cap) (max_machines inp) [],
                       raw_caps = fold (\<lambda>(item, cap). AList.update item cap) (raw_supply_per_min inp) [] \<rparr>"
    by (auto simp: parse_catalog_def Let_def split: sum.splits)
  have raw: "sorted ?raw \<and> distinct ?raw"
    by (rule fold_insort_insert_sorted) simp_all
  from process_recipes_well_formed [OF pr]
  show "\<forall>(n, r) \<in> set (recipe_map cat). well_formed r" by (simp add: cat)
  show "distinct (raw_items cat)" using raw by (simp add: cat)
  from process_recipes_items [OF pr] raw have "distinct items" by blast
  then show "distinct (intermediate_items cat)" by (simp add: cat distinct_removeAll)
  show "distinct (map fst (machine_caps cat))"
    using fold_update_distinct [of "[]" "\<lambda>k v. v" "max_machines inp"] by (simp add: cat)
qed

subsection \<open>The Phase-2 model written out\<close>

lemma zip_append_upt:
  "zip xs [a ..< a + length xs] @ zip ys [a + length xs ..< a + length xs + length ys]
     = zip (xs @ ys) [a ..< a + (length xs + length ys)]"
proof -
  have "[a ..< a + (length xs + length ys)] = [a ..< a + length xs] @ [a + length xs ..< a + length xs + length ys]"
    by (metis add.assoc le_add1 upt_add_eq_append)
  then show ?thesis by (simp add: zip_append)
qed

lemma zip_keys_subset: "fst ` set (zip xs ys) \<subseteq> set xs"
  by (force dest: set_zip_leftD)

lemma build_phase2_explicit:
  assumes cat: "parse_catalog inp = Inr cat"
  shows "build_phase2 inp cat =
           \<lparr> solver2 = fold (phase2_step (phase2_usage cat) (phase2_balance inp cat) (phase2_x cat))
                         (recipe_map cat) (phase2_frame inp cat),
             x2 = phase2_x cat, item_balance2 = phase2_balance inp cat,
             machine_usage2 = phase2_usage cat \<rparr>"
proof -
  note k = parse_catalog_keys [OF cat]
  note d = parse_catalog_distinct [OF cat]
  let ?rs = "recipe_map cat"
  let ?inter = "intermediate_items cat"
  let ?raw = "raw_items cat"
  let ?tgt = "target_item inp"
  let ?vars = "map (\<lambda>(nm, r). \<lparr> var_lb = 0, var_ub = infinity, var_name = nm \<rparr>) ?rs"
  let ?s1 = "CreateSolver\<lparr> variables := variables CreateSolver @ ?vars \<rparr>"
  have e1: "fold make_x ?rs (CreateSolver, []) = (?s1, phase2_x cat)"
    using fold_make_x_explicit [OF k(2), of "[]" CreateSolver]
    by (simp add: phase2_x_def CreateSolver_def)
  let ?irows = "map (\<lambda>item. \<lparr> row_lb = 0, row_ub = 0, row_name = ''balance_'' @ item,
                                  coefficients = [] \<rparr>) ?inter"
  let ?s2 = "?s1\<lparr> constraints := constraints ?s1 @ ?irows \<rparr>"
  let ?b1 = "zip ?inter [0 ..< length ?inter]"
  have e2: "fold (make_row 0 0) ?inter (?s1, []) = (?s2, ?b1)"
    using fold_make_row_explicit [OF d(3), of "[]" "\<lambda>item. 0" "\<lambda>item. 0" ?s1]
    by (simp add: CreateSolver_def)
  let ?rrows = "map (\<lambda>item. \<lparr> row_lb = - at_key (raw_caps cat) item 0, row_ub = 0,
                                  row_name = ''balance_'' @ item, coefficients = [] \<rparr>) ?raw"
  let ?s3 = "?s2\<lparr> constraints := constraints ?s2 @ ?rrows \<rparr>"
  have "fst ` set ?b1 \<subseteq> set ?inter"
    by (rule zip_keys_subset)
  moreover have "set ?inter \<inter> set ?raw = {}"
    unfolding k(8) by blast
  ultimately have disj: "fst ` set ?b1 \<inter> set ?raw = {}"
    by blast
  have e3: "fold (\<lambda>item. make_row (- at_key (raw_caps cat) item 0) 0 item) ?raw (?s2, ?b1)
      = (?s3, raw_rows cat)"
    using fold_make_row_explicit [OF d(2) disj, of "\<lambda>item. - at_key (raw_caps cat) item 0"
        "\<lambda>item. 0" ?s2]
      zip_append_upt [of ?inter 0 ?raw]
    by (simp add: CreateSolver_def raw_rows_def)
  let ?trow = "\<lparr> row_lb = requested_target_rate inp, row_ub = requested_target_rate inp,
                  row_name = ''balance_'' @ ?tgt, coefficients = [] \<rparr>"
  let ?s4 = "?s3\<lparr> constraints := constraints ?s3 @ [?trow] \<rparr>"
  have e4: "make_row (requested_target_rate inp) (requested_target_rate inp) ?tgt (?s3, raw_rows cat)
      = (?s4, phase2_balance inp cat)"
    by (simp add: make_row_def MakeRowConstraint_def phase2_balance_def target_row_def
        CreateSolver_def)
  let ?crows = "map (\<lambda>(nm, cap). \<lparr> row_lb = 0, row_ub = cap, row_name = ''cap_'' @ nm,
                                      coefficients = [] \<rparr>) (machine_caps cat)"
  let ?s5 = "?s4\<lparr> constraints := constraints ?s4 @ ?crows \<rparr>"
  have e5: "fold make_usage_row (machine_caps cat) (?s4, []) = (?s5, phase2_usage cat)"
    using fold_make_usage_explicit [OF d(4), of "[]" ?s4]
    by (simp add: phase2_usage_def target_row_def CreateSolver_def)
  have e6: "SetMinimization ?s5 = phase2_frame inp cat"
    by (simp add: SetMinimization_def phase2_frame_def phase2_rows_def CreateSolver_def)
  show ?thesis
    unfolding build_phase2_def e1 Let_def prod.case e2 e3 e4 e5 e6 phase2_step_def ..
qed

subsection \<open>Looking a name up in the maps\<close>

lemma at_zip:
  assumes "distinct ks" and "i < length ks"
  shows "at_key (zip ks [a ..< a + length ks]) (ks ! i) 0 = a + i"
proof -
  have "map_of (zip ks [a ..< a + length ks]) (ks ! i) = Some ([a ..< a + length ks] ! i)"
    using assms by (intro map_of_zip_nth) simp_all
  then show ?thesis using assms(2) by (simp add: at_key_def)
qed

lemma zip_keys: "fst ` set (zip ks [a ..< a + length ks]) = set ks"
proof -
  have "map fst (zip ks [a ..< a + length ks]) = ks" by (simp add: map_fst_zip)
  then have "set (map fst (zip ks [a ..< a + length ks])) = set ks" by (simp only:)
  then show ?thesis by (simp only: set_map)
qed

lemma at_zip_less:
  assumes "distinct ks" and "k \<in> set ks"
  shows "a \<le> at_key (zip ks [a ..< a + length ks]) k 0"
    and "at_key (zip ks [a ..< a + length ks]) k 0 < a + length ks"
proof -
  from assms(2) obtain i where i: "i < length ks" "ks ! i = k" by (auto simp: in_set_conv_nth)
  with at_zip [OF assms(1) i(1), of a]
  show "a \<le> at_key (zip ks [a ..< a + length ks]) k 0"
    and "at_key (zip ks [a ..< a + length ks]) k 0 < a + length ks" by simp_all
qed

lemma at_zip_inj:
  assumes "distinct ks" and "k \<in> set ks" and "k' \<in> set ks"
      and "at_key (zip ks [a ..< a + length ks]) k 0 = at_key (zip ks [a ..< a + length ks]) k' 0"
  shows "k = k'"
proof -
  from assms(2) obtain i where i: "i < length ks" "ks ! i = k" by (auto simp: in_set_conv_nth)
  from assms(3) obtain i' where i': "i' < length ks" "ks ! i' = k'" by (auto simp: in_set_conv_nth)
  from at_zip [OF assms(1) i(1), of a] at_zip [OF assms(1) i'(1), of a] assms(4) i i'
  have "i = i'" by simp
  with i i' show ?thesis by simp
qed

lemma zip_row_values:
  assumes "distinct (map fst rs)"
  shows "map (\<lambda>(nm, r). at_key (zip (map fst rs) [0 ..< length rs]) nm 0) rs = [0 ..< length rs]"
proof (rule nth_equalityI)
  show "length (map (\<lambda>(nm, r). at_key (zip (map fst rs) [0 ..< length rs]) nm 0) rs)
      = length [0 ..< length rs]" by simp
next
  fix i
  assume "i < length (map (\<lambda>(nm, r). at_key (zip (map fst rs) [0 ..< length rs]) nm 0) rs)"
  then have i: "i < length rs" by simp
  from at_zip [OF assms, of i 0] i
  have "at_key (zip (map fst rs) [0 ..< length rs]) (fst (rs ! i)) 0 = i" by simp
  then show "map (\<lambda>(nm, r). at_key (zip (map fst rs) [0 ..< length rs]) nm 0) rs ! i
      = [0 ..< length rs] ! i"
    using i by (simp add: split_beta)
qed

lemma raw_rows_zip:
  "raw_rows cat = zip (intermediate_items cat @ raw_items cat)
                    [0 ..< 0 + length (intermediate_items cat @ raw_items cat)]"
  by (simp add: raw_rows_def)

lemma raw_rows_zip':
  "zip (intermediate_items cat @ raw_items cat)
     [0 ..< 0 + length (intermediate_items cat @ raw_items cat)] = raw_rows cat"
  by (simp add: raw_rows_def)

lemma rows_by_key:
  assumes d: "distinct (xs @ ys)" and k: "k \<in> set (xs @ ys)"
  shows "(map f xs @ map g ys @ rest) ! at_key (zip (xs @ ys) [0 ..< length xs + length ys]) k 0
           = (if k \<in> set xs then f k else g k)"
proof -
  from k obtain i where i: "i < length (xs @ ys)" "(xs @ ys) ! i = k"
    by (metis in_set_conv_nth)
  from at_zip [OF d i(1), of 0] i(2)
  have at: "at_key (zip (xs @ ys) [0 ..< length xs + length ys]) k 0 = i" by simp
  show ?thesis
  proof (cases "i < length xs")
    case True
    with i(2) have "xs ! i = k" by (simp add: nth_append)
    with True have "k \<in> set xs" by auto
    with True \<open>xs ! i = k\<close> show ?thesis by (simp add: at nth_append)
  next
    case False
    with i have j: "i - length xs < length ys" "ys ! (i - length xs) = k"
      by (simp_all add: nth_append)
    then have "k \<in> set ys" by auto
    with d have "k \<notin> set xs" by auto
    with False j show ?thesis by (simp add: at nth_append)
  qed
qed

lemma phase2_rows_coefficients:
  "j < length (phase2_rows inp cat) \<Longrightarrow> coefficients (phase2_rows inp cat ! j) = []"
proof -
  have "\<forall>row \<in> set (phase2_rows inp cat). coefficients row = []"
    by (auto simp: phase2_rows_def)
  then show "j < length (phase2_rows inp cat) \<Longrightarrow> coefficients (phase2_rows inp cat ! j) = []"
    by simp
qed

lemma phase2_rows_length:
  "length (phase2_rows inp cat) = Suc (target_row cat) + length (machine_caps cat)"
  by (simp add: phase2_rows_def target_row_def)

lemma phase2_rows_target:
  "phase2_rows inp cat ! target_row cat =
     \<lparr> row_lb = requested_target_rate inp, row_ub = requested_target_rate inp,
       row_name = ''balance_'' @ target_item inp, coefficients = [] \<rparr>"
proof -
  let ?a = "map (\<lambda>item. \<lparr> row_lb = 0, row_ub = 0, row_name = ''balance_'' @ item,
                             coefficients = [] \<rparr>) (intermediate_items cat)
     @ map (\<lambda>item. \<lparr> row_lb = - at_key (raw_caps cat) item 0, row_ub = 0,
                      row_name = ''balance_'' @ item, coefficients = [] \<rparr>) (raw_items cat)"
  have l: "length ?a = target_row cat" by (simp add: target_row_def)
  have "phase2_rows inp cat = ?a @ (\<lparr> row_lb = requested_target_rate inp,
       row_ub = requested_target_rate inp, row_name = ''balance_'' @ target_item inp,
       coefficients = [] \<rparr> # map (\<lambda>(nm, cap). \<lparr> row_lb = 0, row_ub = cap,
          row_name = ''cap_'' @ nm, coefficients = [] \<rparr>) (machine_caps cat))"
    by (simp add: phase2_rows_def)
  then show ?thesis
    using nth_append_length [of ?a] l by (simp only:)
qed

lemma phase2_balance_facts:
  assumes cat: "parse_catalog inp = Inr cat"
  shows "fst ` set (phase2_balance inp cat)
           = insert (target_item inp) (set (intermediate_items cat) \<union> set (raw_items cat))"
    and "at_key (phase2_balance inp cat) k 0
           = (if k = target_item inp then target_row cat else at_key (raw_rows cat) k 0)"
    and "k \<in> set (intermediate_items cat) \<union> set (raw_items cat)
           \<Longrightarrow> at_key (raw_rows cat) k 0 < target_row cat"
    and "distinct (intermediate_items cat @ raw_items cat)"
proof -
  note k = parse_catalog_keys [OF cat]
  note d = parse_catalog_distinct [OF cat]
  let ?ks = "intermediate_items cat @ raw_items cat"
  show dks: "distinct ?ks" using d(2,3) k(8) by auto
  show "fst ` set (phase2_balance inp cat)
           = insert (target_item inp) (set (intermediate_items cat) \<union> set (raw_items cat))"
    unfolding phase2_balance_def update_key_set raw_rows_zip zip_keys by simp
  show "at_key (phase2_balance inp cat) k 0
           = (if k = target_item inp then target_row cat else at_key (raw_rows cat) k 0)"
    unfolding phase2_balance_def by (simp add: at_key_update)
  show "at_key (raw_rows cat) k 0 < target_row cat"
    if "k \<in> set (intermediate_items cat) \<union> set (raw_items cat)"
  proof -
    from that have "k \<in> set ?ks" by simp
    from at_zip_less(2) [OF dks this, of 0] show ?thesis
      unfolding raw_rows_zip' by (simp add: target_row_def)
  qed
qed

lemma phase2_balance_row_map:
  assumes cat: "parse_catalog inp = Inr cat"
  shows "row_map (phase2_frame inp cat) (phase2_balance inp cat)"
    and "rows_of (phase2_balance inp cat) \<subseteq> {.. target_row cat}"
proof -
  note b = phase2_balance_facts [OF cat]
  let ?ks = "intermediate_items cat @ raw_items cat"
  have val: "at_key (phase2_balance inp cat) k 0 \<le> target_row cat"
    if "k \<in> fst ` set (phase2_balance inp cat)" for k
  proof (cases "k = target_item inp")
    case True
    then show ?thesis by (simp add: b(2))
  next
    case False
    with that b(1) have "k \<in> set (intermediate_items cat) \<union> set (raw_items cat)" by auto
    from b(3) [OF this] False show ?thesis by (simp add: b(2))
  qed
  then show sub: "rows_of (phase2_balance inp cat) \<subseteq> {.. target_row cat}"
    by (auto simp: rows_of_def)
  have inj: "inj_on (\<lambda>k. at_key (phase2_balance inp cat) k 0) (fst ` set (phase2_balance inp cat))"
  proof (rule inj_onI)
    fix k k'
    assume k: "k \<in> fst ` set (phase2_balance inp cat)"
      and k': "k' \<in> fst ` set (phase2_balance inp cat)"
      and eq: "at_key (phase2_balance inp cat) k 0 = at_key (phase2_balance inp cat) k' 0"
    show "k = k'"
    proof (cases "k = target_item inp")
      case True
      show ?thesis
      proof (rule ccontr)
        assume ne: "k \<noteq> k'"
        with True k' b(1) have "k' \<in> set (intermediate_items cat) \<union> set (raw_items cat)" by auto
        from b(3) [OF this] eq True ne show False by (simp add: b(2))
      qed
    next
      case False
      with k b(1) have m: "k \<in> set (intermediate_items cat) \<union> set (raw_items cat)" by auto
      show ?thesis
      proof (cases "k' = target_item inp")
        case True
        with b(3) [OF m] eq False show ?thesis by (simp add: b(2))
      next
        case k'n: False
        with k' b(1) have m': "k' \<in> set (intermediate_items cat) \<union> set (raw_items cat)" by auto
        from eq False k'n have "at_key (raw_rows cat) k 0 = at_key (raw_rows cat) k' 0"
          by (simp add: b(2))
        with at_zip_inj [OF b(4), of k k' 0] m m' show ?thesis
          unfolding raw_rows_zip' by simp
      qed
    qed
  qed
  have "\<forall>j \<in> rows_of (phase2_balance inp cat). j < length (constraints (phase2_frame inp cat))"
    using sub by (auto simp: phase2_frame_def phase2_rows_length)
  with inj show "row_map (phase2_frame inp cat) (phase2_balance inp cat)"
    by (simp add: row_map_def)
qed

lemma phase2_usage_row_map:
  assumes cat: "parse_catalog inp = Inr cat"
  shows "row_map (phase2_frame inp cat) (phase2_usage cat)"
    and "rows_of (phase2_usage cat) \<subseteq> {Suc (target_row cat) ..}"
proof -
  note d = parse_catalog_distinct [OF cat]
  let ?ks = "map fst (machine_caps cat)"
  have u: "phase2_usage cat = zip ?ks [Suc (target_row cat) ..< Suc (target_row cat) + length ?ks]"
    by (simp add: phase2_usage_def)
  have keys: "fst ` set (phase2_usage cat) = set ?ks"
    unfolding u by (rule zip_keys)
  have lo: "Suc (target_row cat) \<le> at_key (phase2_usage cat) k 0"
    if "k \<in> set ?ks" for k
    unfolding u by (rule at_zip_less(1) [OF d(4) that])
  have hi: "at_key (phase2_usage cat) k 0 < Suc (target_row cat) + length ?ks"
    if "k \<in> set ?ks" for k
    unfolding u by (rule at_zip_less(2) [OF d(4) that])
  show "rows_of (phase2_usage cat) \<subseteq> {Suc (target_row cat) ..}"
    using lo by (auto simp: rows_of_def keys)
  have inj: "inj_on (\<lambda>k. at_key (phase2_usage cat) k 0) (fst ` set (phase2_usage cat))"
    unfolding keys
  proof (rule inj_onI)
    fix k k'
    assume "k \<in> set ?ks" "k' \<in> set ?ks"
      "at_key (phase2_usage cat) k 0 = at_key (phase2_usage cat) k' 0"
    then show "k = k'"
      unfolding u by (rule at_zip_inj [OF d(4)])
  qed
  have "\<forall>j \<in> rows_of (phase2_usage cat). j < length (constraints (phase2_frame inp cat))"
    using hi by (auto simp: rows_of_def keys phase2_frame_def phase2_rows_length)
  with inj show "row_map (phase2_frame inp cat) (phase2_usage cat)"
    by (simp add: row_map_def)
qed

subsection \<open>The value of a balance row\<close>

lemma lp_feasible_row:
  assumes "lp_feasible s r" and "j < length (constraints s)"
  shows "activity r j = row_value s (solution_value r) (constraints s ! j)"
    and "row_lb (constraints s ! j) \<le> activity r j"
    and "activity r j \<le> row_ub (constraints s ! j)"
proof -
  from assms(1) have "list_all (\<lambda>(j, row). activity r j = row_value s (solution_value r) row \<and>
                 row_lb row \<le> activity r j \<and> activity r j \<le> row_ub row)
       (enumerate 0 (constraints s))"
    by (simp add: lp_feasible_def)
  then have "(\<lambda>(j, row). activity r j = row_value s (solution_value r) row \<and>
                 row_lb row \<le> activity r j \<and> activity r j \<le> row_ub row)
       (enumerate 0 (constraints s) ! j)"
    using assms(2) by (simp add: list_all_length)
  then show "activity r j = row_value s (solution_value r) (constraints s ! j)"
    and "row_lb (constraints s ! j) \<le> activity r j"
    and "activity r j \<le> row_ub (constraints s ! j)"
    using assms(2) by (simp_all add: nth_enumerate_eq)
qed

lemma lp_feasible_var:
  assumes "lp_feasible s r" and "v < length (variables s)"
  shows "var_lb (variables s ! v) \<le> solution_value r v"
proof -
  from assms(1) have "list_all (\<lambda>(v, var). var_lb var \<le> solution_value r v)
       (enumerate 0 (variables s))"
    by (simp add: lp_feasible_def)
  then have "(\<lambda>(v, var). var_lb var \<le> solution_value r v) (enumerate 0 (variables s) ! v)"
    using assms(2) by (simp add: list_all_length)
  then show ?thesis using assms(2) by (simp add: nth_enumerate_eq)
qed

lemma phase2_solver_facts:
  assumes cat: "parse_catalog inp = Inr cat"
  defines "s2 \<equiv> solver2 (build_phase2 inp cat)"
  shows "variables s2 = variables (phase2_frame inp cat)"
    and "length (constraints s2) = length (phase2_rows inp cat)"
    and "j < length (phase2_rows inp cat) \<Longrightarrow>
           row_lb (constraints s2 ! j) = row_lb (phase2_rows inp cat ! j) \<and>
           row_ub (constraints s2 ! j) = row_ub (phase2_rows inp cat ! j) \<and>
           row_name (constraints s2 ! j) = row_name (phase2_rows inp cat ! j)"
    and "j \<notin> rows_of (phase2_balance inp cat) \<Longrightarrow> j \<notin> rows_of (phase2_usage cat) \<Longrightarrow>
           constraints s2 ! j = phase2_rows inp cat ! j"
proof -
  let ?f = "phase2_frame inp cat"
  have s2: "s2 = fold (phase2_step (phase2_usage cat) (phase2_balance inp cat) (phase2_x cat))
                   (recipe_map cat) ?f"
    by (simp add: s2_def build_phase2_explicit [OF cat])
  have fr: "same_frame ?f s2" unfolding s2 by (rule phase2_fold_frame)
  have c: "constraints ?f = phase2_rows inp cat" by (simp add: phase2_frame_def)
  from fr show "variables s2 = variables (phase2_frame inp cat)"
    by (simp add: same_frame_def)
  from fr show l: "length (constraints s2) = length (phase2_rows inp cat)"
    by (simp add: same_frame_def c)
  show "row_lb (constraints s2 ! j) = row_lb (phase2_rows inp cat ! j) \<and>
           row_ub (constraints s2 ! j) = row_ub (phase2_rows inp cat ! j) \<and>
           row_name (constraints s2 ! j) = row_name (phase2_rows inp cat ! j)"
    if j: "j < length (phase2_rows inp cat)"
  proof -
    from fr have m: "map row_lb (constraints s2) = map row_lb (phase2_rows inp cat)"
      "map row_ub (constraints s2) = map row_ub (phase2_rows inp cat)"
      "map row_name (constraints s2) = map row_name (phase2_rows inp cat)"
      by (simp_all add: same_frame_def c)
    from j l have j2: "j < length (constraints s2)" by simp
    from m(1) have "map row_lb (constraints s2) ! j = map row_lb (phase2_rows inp cat) ! j"
      by simp
    moreover from m(2) have "map row_ub (constraints s2) ! j = map row_ub (phase2_rows inp cat) ! j"
      by simp
    moreover from m(3) have "map row_name (constraints s2) ! j = map row_name (phase2_rows inp cat) ! j"
      by simp
    ultimately show ?thesis using j j2 by simp
  qed
  show "constraints s2 ! j = phase2_rows inp cat ! j"
    if "j \<notin> rows_of (phase2_balance inp cat)" and "j \<notin> rows_of (phase2_usage cat)"
    unfolding s2 phase2_fold_other_row [OF that] by (simp add: c)
qed

lemma phase2_row_value:
  assumes cat: "parse_catalog inp = Inr cat"
      and i: "i \<in> fst ` set (phase2_balance inp cat)"
  defines "p2 \<equiv> build_phase2 inp cat"
  shows "row_value (solver2 p2) val (constraints (solver2 p2) ! at_key (item_balance2 p2) i 0)
           = lp_balance cat (\<lambda>nm. val (at_key (x2 p2) nm 0)) i"
proof -
  note k = parse_catalog_keys [OF cat]
  note d = parse_catalog_distinct [OF cat]
  let ?f = "phase2_frame inp cat"
  let ?bal = "phase2_balance inp cat"
  let ?use = "phase2_usage cat"
  let ?x = "phase2_x cat"
  let ?rs = "recipe_map cat"
  let ?s2 = "fold (phase2_step ?use ?bal ?x) ?rs ?f"
  let ?j = "at_key ?bal i 0"
  have p2: "solver2 p2 = ?s2" "item_balance2 p2 = ?bal" "x2 p2 = ?x"
    by (simp_all add: p2_def build_phase2_explicit [OF cat])
  note rb = phase2_balance_row_map [OF cat]
  note ru = phase2_usage_row_map [OF cat]
  have disj: "rows_of ?bal \<inter> rows_of ?use = {}" using rb(2) ru(2) by fastforce
  have xs: "map (\<lambda>(nm, r). at_key ?x nm 0) ?rs = [0 ..< length ?rs]"
    unfolding phase2_x_def by (rule zip_row_values [OF k(2)])
  then have dx: "distinct (map (\<lambda>(nm, r). at_key ?x nm 0) ?rs)" by simp
  have j: "?j < length (phase2_rows inp cat)"
    using rb(1) i by (auto simp: row_map_def rows_of_def phase2_frame_def)
  have zero: "cf ?f ?j v = 0" for v
    using phase2_rows_coefficients [OF j] by (simp add: cf_def phase2_frame_def at_key_def)
  have coef: "cf ?s2 ?j (at_key ?x nm 0) = lp_coefficient r i 0" if "(nm, r) \<in> set ?rs" for nm r
    using phase2_fold_cf [OF rb(1) ru(1) disj d(1) dx i that] by (simp add: zero)
  have vars: "length (variables ?s2) = length ?rs"
    using phase2_solver_facts(1) [OF cat] by (simp add: build_phase2_explicit [OF cat] phase2_frame_def)
  have "row_value ?s2 val (constraints ?s2 ! ?j)
      = sum_list (map (\<lambda>v. cf ?s2 ?j v * val v) [0 ..< length ?rs])"
    by (simp add: row_value_def cf_def vars)
  also have "\<dots> = sum_list (map (\<lambda>v. cf ?s2 ?j v * val v) (map (\<lambda>(nm, r). at_key ?x nm 0) ?rs))"
    by (simp only: xs)
  also have "map (\<lambda>v. cf ?s2 ?j v * val v) (map (\<lambda>(nm, r). at_key ?x nm 0) ?rs)
      = map (\<lambda>(nm, r). lp_coefficient r i 0 * val (at_key ?x nm 0)) ?rs"
    unfolding map_map by (rule map_cong [OF refl]) (auto simp: coef)
  finally show ?thesis
    by (simp add: p2 lp_balance_def)
qed

subsection \<open>What a feasible answer gives\<close>

lemma at_key_absent: "k \<notin> fst ` set m \<Longrightarrow> at_key m k d = d"
proof -
  assume "k \<notin> fst ` set m"
  then have "map_of m k = None" by (simp add: map_of_eq_None_iff)
  then show ?thesis by (simp add: at_key_def)
qed

lemma lp_coefficient_net: "no_overlap rc \<Longrightarrow> lp_coefficient rc i 0 = net_output rc i"
  unfolding no_overlap_def lp_coefficient_def net_output_def
  by (cases "i \<in> fst ` set (out_items rc)"; cases "i \<in> fst ` set (in_items rc)")
     (auto simp: at_key_absent)

lemma lp_balance_net:
  assumes "\<forall>(nm, rc) \<in> set (recipe_map cat). no_overlap rc"
  shows "lp_balance cat rate i = plan_balance cat rate i"
proof -
  have "map (\<lambda>(nm, r). lp_coefficient r i 0 * rate nm) (recipe_map cat)
      = map (\<lambda>(nm, r). rate nm * net_output r i) (recipe_map cat)"
  proof (rule map_cong [OF refl])
    fix p assume p: "p \<in> set (recipe_map cat)"
    obtain nm rc where e: "p = (nm, rc)" by (cases p)
    from assms p have "case p of (nm, rc) \<Rightarrow> no_overlap rc" by (rule bspec)
    then have "no_overlap rc" by (simp add: e)
    then show "(case p of (nm, r) \<Rightarrow> lp_coefficient r i 0 * rate nm)
             = (case p of (nm, r) \<Rightarrow> rate nm * net_output r i)"
      by (simp add: e lp_coefficient_net)
  qed
  then show ?thesis unfolding lp_balance_def plan_balance_def by (rule arg_cong)
qed

lemma phase2_feasible_balances:
  assumes cat: "parse_catalog inp = Inr cat"
      and feas: "lp_feasible (solver2 (build_phase2 inp cat)) r"
  defines "p2 \<equiv> build_phase2 inp cat"
  shows "i \<in> set (intermediate_items cat) \<Longrightarrow> lp_balance cat (plan_rate p2 r) i = 0"
    and "lp_balance cat (plan_rate p2 r) (target_item inp) = requested_target_rate inp"
    and "activity r (at_key (item_balance2 p2) (target_item inp) 0) = requested_target_rate inp"
    and "(nm, rc) \<in> set (recipe_map cat) \<Longrightarrow> 0 \<le> plan_rate p2 r nm"
proof -
  note k = parse_catalog_keys [OF cat]
  note d = parse_catalog_distinct [OF cat]
  note b = phase2_balance_facts [OF cat]
  note f = phase2_solver_facts [OF cat]
  let ?s2 = "solver2 p2"
  let ?tgt = "target_item inp"
  have bal: "item_balance2 p2 = phase2_balance inp cat" and x: "x2 p2 = phase2_x cat"
    by (simp_all add: p2_def build_phase2_explicit [OF cat])
  have rate: "(\<lambda>nm. solution_value r (at_key (x2 p2) nm 0)) = plan_rate p2 r"
    by (simp add: plan_rate_def fun_eq_iff)
  have val_eq: "activity r (at_key (item_balance2 p2) i 0) = lp_balance cat (plan_rate p2 r) i"
    and lower: "row_lb (phase2_rows inp cat ! at_key (item_balance2 p2) i 0)
                  \<le> activity r (at_key (item_balance2 p2) i 0)"
    and upper: "activity r (at_key (item_balance2 p2) i 0)
                  \<le> row_ub (phase2_rows inp cat ! at_key (item_balance2 p2) i 0)"
    if i: "i \<in> fst ` set (phase2_balance inp cat)" for i
  proof -
    have j: "at_key (item_balance2 p2) i 0 < length (phase2_rows inp cat)"
      using phase2_balance_row_map(1) [OF cat] i
      by (auto simp: bal row_map_def rows_of_def phase2_frame_def)
    then have j2: "at_key (item_balance2 p2) i 0 < length (constraints ?s2)"
      by (simp add: p2_def f(2))
    note row = lp_feasible_row [OF feas [folded p2_def] j2]
    from row(1) phase2_row_value [OF cat i, of "solution_value r", folded p2_def]
    show "activity r (at_key (item_balance2 p2) i 0) = lp_balance cat (plan_rate p2 r) i"
      by (simp add: rate)
    from row(2) f(3) [OF j]
    show "row_lb (phase2_rows inp cat ! at_key (item_balance2 p2) i 0)
                  \<le> activity r (at_key (item_balance2 p2) i 0)"
      by (simp add: p2_def)
    from row(3) f(3) [OF j]
    show "activity r (at_key (item_balance2 p2) i 0)
                  \<le> row_ub (phase2_rows inp cat ! at_key (item_balance2 p2) i 0)"
      by (simp add: p2_def)
  qed
  show "lp_balance cat (plan_rate p2 r) i = 0" if i: "i \<in> set (intermediate_items cat)"
  proof -
    from i k(7,8) have ne: "i \<noteq> ?tgt" by auto
    from i b(1) have key: "i \<in> fst ` set (phase2_balance inp cat)" by simp
    have j: "at_key (item_balance2 p2) i 0 = at_key (raw_rows cat) i 0"
      using ne by (simp add: bal b(2))
    from i have mem: "i \<in> set (intermediate_items cat @ raw_items cat)" by simp
    have row: "phase2_rows inp cat ! at_key (raw_rows cat) i 0
        = \<lparr> row_lb = 0, row_ub = 0, row_name = ''balance_'' @ i, coefficients = [] \<rparr>"
      unfolding phase2_rows_def raw_rows_def
      using rows_by_key [OF b(4) mem] i by simp
    from lower [OF key] upper [OF key] val_eq [OF key] show ?thesis
      by (simp add: j row)
  qed
  have tkey: "?tgt \<in> fst ` set (phase2_balance inp cat)" by (simp add: b(1))
  have tj: "at_key (item_balance2 p2) ?tgt 0 = target_row cat" by (simp add: bal b(2))
  from lower [OF tkey] upper [OF tkey]
  show act: "activity r (at_key (item_balance2 p2) ?tgt 0) = requested_target_rate inp"
    by (simp add: tj phase2_rows_target)
  with val_eq [OF tkey]
  show "lp_balance cat (plan_rate p2 r) ?tgt = requested_target_rate inp" by simp
  show "0 \<le> plan_rate p2 r nm" if m: "(nm, rc) \<in> set (recipe_map cat)"
  proof -
    let ?names = "map fst (recipe_map cat)"
    from m have nm: "nm \<in> set ?names" by force
    have "at_key (zip ?names [0 ..< 0 + length ?names]) nm 0 < 0 + length ?names"
      by (rule at_zip_less(2) [OF k(2) nm])
    then have v: "at_key (x2 p2) nm 0 < length (recipe_map cat)"
      by (simp add: x phase2_x_def)
    then have v2: "at_key (x2 p2) nm 0 < length (variables ?s2)"
      by (simp add: p2_def f(1) phase2_frame_def)
    from lp_feasible_var [OF feas [folded p2_def] v2] v show ?thesis
      by (simp add: p2_def f(1) phase2_frame_def plan_rate_def split_beta)
  qed
qed

subsection \<open>The printed rates\<close>

lemma ok_crafts_value:
  assumes cat: "parse_catalog inp = Inr cat" and n: "(n, rc) \<in> set (recipe_map cat)"
  shows "\<exists>crafts. json_get (factory_ok_result cat p r) ''per_recipe_crafts_per_min'' = Some crafts \<and>
           json_get crafts n = Some (JNum (if plan_rate p r n > tolerance then plan_rate p r n else 0))"
proof -
  note k = parse_catalog_keys [OF cat]
  let ?c0 = "fold (\<lambda>(nm, rc). AList.update nm 0) (recipe_map cat) []"
  let ?m0 = "fold (\<lambda>(nm, cap). AList.update nm 0) (machine_caps cat) []"
  let ?acc = "fold (emit_recipe p r) (recipe_map cat) (?c0, ?m0)"
  from n have key: "n \<in> fst ` set (recipe_map cat)" by force
  have c0v: "map_of ?c0 n = Some 0"
    using key by (simp add: fold_update_const)
  from n have ex: "\<exists>rc. (n, rc) \<in> set (recipe_map cat)" by blast
  have "json_get (number_map (fst ?acc)) n
      = Some (JNum (if plan_rate p r n > tolerance then plan_rate p r n else 0))"
    using ex by (simp add: json_get_number_map emit_crafts_value c0v)
  then show ?thesis by (simp add: ok_result_fields)
qed

lemma ok_crafts_rate:
  assumes cat: "parse_catalog inp = Inr cat"
      and crafts: "json_get (factory_ok_result cat p r) ''per_recipe_crafts_per_min'' = Some crafts"
      and n: "(n, rc) \<in> set (recipe_map cat)"
  shows "emitted_rate crafts n = (if plan_rate p r n > tolerance then plan_rate p r n else 0)"
  using ok_crafts_value [OF cat n, of p r] crafts by (auto simp: emitted_rate_def)

lemma ok_cons_value:
  assumes cat: "parse_catalog inp = Inr cat" and i: "i \<in> fst ` set (raw_supply_per_min inp)"
  shows "\<exists>cons. json_get (factory_ok_result cat p r) ''raw_consumption_per_min'' = Some cons \<and>
           json_get cons i = Some (JNum (if consumption p r i > tolerance then consumption p r i else 0))"
proof -
  note k = parse_catalog_keys [OF cat]
  have sub: "set (raw_items cat) \<subseteq> fst ` set (raw_caps cat)" using k(4,5) by simp
  let ?cons = "fold (emit_raw cat p r) (raw_items cat) []"
  have "json_get (number_map ?cons) i
      = Some (JNum (if consumption p r i > tolerance then consumption p r i else 0))"
    using i k(5) by (simp add: json_get_number_map emit_raw_fold [OF sub])
  then show ?thesis by (simp add: ok_result_fields)
qed

lemma emitted_sum_close:
  fixes v e :: "string \<Rightarrow> real" and c :: "Recipe \<Rightarrow> real"
  assumes "\<And>nm rc. (nm, rc) \<in> set rs \<Longrightarrow> 0 \<le> v nm \<and> e nm = (if v nm > tol then v nm else 0)"
      and "0 \<le> tol"
  shows "\<bar>sum_list (map (\<lambda>(nm, rc). e nm * c rc) rs) - sum_list (map (\<lambda>(nm, rc). v nm * c rc) rs)\<bar>
           \<le> tol * sum_list (map (\<lambda>(nm, rc). \<bar>c rc\<bar>) rs)"
  using assms(1)
proof (induction rs)
  case Nil
  then show ?case by simp
next
  case (Cons p rs)
  obtain nm rc where p: "p = (nm, rc)" by (cases p)
  from Cons.prems [of nm rc] have v: "0 \<le> v nm" and e: "e nm = (if v nm > tol then v nm else 0)"
    by (simp_all add: p)
  have one: "\<bar>e nm * c rc - v nm * c rc\<bar> \<le> tol * \<bar>c rc\<bar>"
  proof (cases "v nm > tol")
    case True
    then show ?thesis using e assms(2) by simp
  next
    case False
    then have "\<bar>e nm * c rc - v nm * c rc\<bar> = v nm * \<bar>c rc\<bar>"
      using e v by (simp add: abs_mult)
    also have "\<dots> \<le> tol * \<bar>c rc\<bar>"
      using False by (intro mult_right_mono) simp_all
    finally show ?thesis .
  qed
  have rest: "\<bar>sum_list (map (\<lambda>(nm, rc). e nm * c rc) rs) - sum_list (map (\<lambda>(nm, rc). v nm * c rc) rs)\<bar>
           \<le> tol * sum_list (map (\<lambda>(nm, rc). \<bar>c rc\<bar>) rs)"
  proof (rule Cons.IH)
    fix nm' rc' assume "(nm', rc') \<in> set rs"
    then have "(nm', rc') \<in> set (p # rs)" by simp
    then show "0 \<le> v nm' \<and> e nm' = (if v nm' > tol then v nm' else 0)"
      by (rule Cons.prems)
  qed
  from one rest show ?case
    by (simp add: p algebra_simps)
qed

lemma emitted_balance_close:
  assumes cat: "parse_catalog inp = Inr cat"
      and feas: "lp_feasible (solver2 (build_phase2 inp cat)) r"
      and crafts: "json_get (factory_ok_result cat (build_phase2 inp cat) r)
                     ''per_recipe_crafts_per_min'' = Some crafts"
  shows "\<bar>plan_balance cat (emitted_rate crafts) i - plan_balance cat (plan_rate (build_phase2 inp cat) r) i\<bar>
           \<le> tolerance * weight cat i"
  unfolding plan_balance_def weight_def
proof (rule emitted_sum_close)
  show "0 \<le> tolerance" by (simp add: tolerance_def)
next
  fix nm rc assume m: "(nm, rc) \<in> set (recipe_map cat)"
  from phase2_feasible_balances(4) [OF cat feas m] ok_crafts_rate [OF cat crafts m]
  show "0 \<le> plan_rate (build_phase2 inp cat) r nm \<and>
        emitted_rate crafts nm
          = (if tolerance < plan_rate (build_phase2 inp cat) r nm
             then plan_rate (build_phase2 inp cat) r nm else 0)"
    by simp
qed

text \<open>
  Claim C2, as the code has it. Take a factory document on which the tool prints status
  \<open>ok\<close>, and suppose that the values and activities that the solver returned for the
  Phase-2 model satisfy that model, and that no recipe has an item among both its
  inputs and its outputs. Then under the rates of \<open>per_recipe_crafts_per_min\<close> the
  balance of every intermediate item is 0 and the balance of the target item is the
  requested rate, each up to \<open>tolerance\<close> times the sum over the recipes of the absolute
  values \<open>\<bar>out[i] * prod_mult - in[i]\<bar>\<close>. A rate that does not exceed \<open>tolerance\<close> is
  printed as 0, so the distance grows with the coefficients and is not bounded by
  \<open>tolerance\<close> itself.
\<close>

theorem emitted_plan_balance:
  assumes run: "stdout (factory_main oracle (Document inp)) = [out]"
      and ok: "json_get out ''status'' = Some (JStr ''ok'')"
      and cat: "parse_catalog inp = Inr cat"
      and feas: "lp_feasible (solver2 (build_phase2 inp cat)) (oracle (solver2 (build_phase2 inp cat)))"
      and apart: "\<forall>(nm, rc) \<in> set (recipe_map cat). no_overlap rc"
  shows "\<exists>crafts. json_get out ''per_recipe_crafts_per_min'' = Some crafts \<and>
           (\<forall>i \<in> set (intermediate_items cat).
              \<bar>plan_balance cat (emitted_rate crafts) i\<bar> \<le> tolerance * weight cat i) \<and>
           \<bar>plan_balance cat (emitted_rate crafts) (target_item inp) - requested_target_rate inp\<bar>
              \<le> tolerance * weight cat (target_item inp)"
proof -
  let ?p = "build_phase2 inp cat"
  let ?r = "oracle (solver2 ?p)"
  from factory_ok_path [OF run ok] cat have out: "out = factory_ok_result cat ?p ?r"
    by auto
  obtain crafts where crafts: "json_get (factory_ok_result cat ?p ?r) ''per_recipe_crafts_per_min'' = Some crafts"
    by (simp add: ok_result_fields)
  note close = emitted_balance_close [OF cat feas crafts]
  note lp = phase2_feasible_balances [OF cat feas]
  have inter: "\<bar>plan_balance cat (emitted_rate crafts) i\<bar> \<le> tolerance * weight cat i"
    if "i \<in> set (intermediate_items cat)" for i
    using close [of i] lp(1) [OF that] by (simp add: lp_balance_net [OF apart])
  have tgt: "\<bar>plan_balance cat (emitted_rate crafts) (target_item inp) - requested_target_rate inp\<bar>
              \<le> tolerance * weight cat (target_item inp)"
    using close [of "target_item inp"] lp(2) by (simp add: lp_balance_net [OF apart])
  from crafts inter tgt show ?thesis
    unfolding out by blast
qed

subsection \<open>The example factories of Phase 2\<close>

lemma mint_parse: "parse_catalog mint_instance = Inr mint_catalog"
  by (simp add: mint_instance_def mint_catalog_def catalog_eval)

lemma mint_build1: "build_phase1 mint_instance mint_catalog = mint_phase1"
  by (simp add: build_phase1_def mint_instance_def mint_catalog_def mint_phase1_def lp_eval)

lemma mint_build2: "build_phase2 mint_instance mint_catalog = mint_phase2"
  by (simp add: build_phase2_def mint_instance_def mint_catalog_def mint_phase2_def lp_eval)

lemma mint_feasible1: "lp_feasible (solver mint_phase1) (mint_oracle (solver mint_phase1))"
  by (simp add: lp_feasible_def row_value_def mint_phase1_def mint_oracle_def at_key_def)

lemma mint_feasible2: "lp_feasible (solver2 mint_phase2) (mint_oracle (solver2 mint_phase2))"
  by (simp add: lp_feasible_def row_value_def mint_phase2_def mint_oracle_def at_key_def)

lemma mint_run:
  "factory_main mint_oracle (Document mint_instance) =
     \<lparr> stdout = [mint_output], stderr = [], solver_runs = 2, exit_code = 0 \<rparr>"
proof -
  have p1: "solved (result_status (mint_oracle (solver mint_phase1)))"
    "solution_value (mint_oracle (solver mint_phase1)) (T_var mint_phase1) = 10"
    by (simp_all add: mint_oracle_def mint_phase1_def solved_def)
  have rate: "requested_target_rate mint_instance = 5 / 10 ^ 9" by (simp add: mint_instance_def)
  have p2: "solved (result_status (mint_oracle (solver2 mint_phase2)))"
    by (simp add: mint_oracle_def mint_phase2_def solved_def)
  have out: "factory_ok_result mint_catalog mint_phase2 (mint_oracle (solver2 mint_phase2))
      = mint_output"
    by (simp add: factory_ok_result_def mint_catalog_def mint_phase2_def mint_oracle_def
        mint_output_def emit_recipe_def emit_raw_def number_map_def at_key_def count_key_def
        tolerance_def Let_def)
  show ?thesis
    by (simp add: factory_main_def solve_factory_def mint_parse mint_build1 mint_build2
        p1 p2 rate out tolerance_def effects.defs Let_def)
qed

lemma works_apart: "\<forall>(nm, rc) \<in> set (recipe_map works_catalog). no_overlap rc"
  by (simp add: works_catalog_def no_overlap_def)

lemma works_balance:
  "intermediate_items works_catalog = [''rod'']"
  "target_item works_instance = ''plate''"
  "requested_target_rate works_instance = 5"
  "json_get works_output ''status'' = Some (JStr ''ok'')"
  "json_get works_output ''per_recipe_crafts_per_min'' = Some works_crafts"
  by (simp_all add: works_catalog_def works_instance_def works_output_def works_crafts_def)

theorem emitted_plan_balance_witness:
  "json_get works_output ''per_recipe_crafts_per_min'' = Some works_crafts \<and>
   \<bar>plan_balance works_catalog (emitted_rate works_crafts) ''rod''\<bar>
      \<le> tolerance * weight works_catalog ''rod'' \<and>
   \<bar>plan_balance works_catalog (emitted_rate works_crafts) ''plate'' - 5\<bar>
      \<le> tolerance * weight works_catalog ''plate''"
proof -
  have run: "stdout (factory_main works_oracle (Document works_instance)) = [works_output]"
    by (simp add: works_run)
  have feas: "lp_feasible (solver2 (build_phase2 works_instance works_catalog))
                (works_oracle (solver2 (build_phase2 works_instance works_catalog)))"
    unfolding works_build2 by (rule works_feasible2)
  from emitted_plan_balance [OF run works_balance(4) works_parse feas works_apart]
  show ?thesis
    unfolding works_balance by simp
qed

theorem threshold_balance_counterexample:
  "stdout (factory_main mint_oracle (Document mint_instance)) = [mint_output] \<and>
   json_get mint_output ''status'' = Some (JStr ''ok'') \<and>
   parse_catalog mint_instance = Inr mint_catalog \<and>
   lp_feasible (solver (build_phase1 mint_instance mint_catalog))
     (mint_oracle (solver (build_phase1 mint_instance mint_catalog))) \<and>
   lp_feasible (solver2 (build_phase2 mint_instance mint_catalog))
     (mint_oracle (solver2 (build_phase2 mint_instance mint_catalog))) \<and>
   json_get mint_output ''per_recipe_crafts_per_min'' = Some (JObj [(''stamp'', JNum 0)]) \<and>
   target_item mint_instance = ''coin'' \<and>
   requested_target_rate mint_instance = 5 / 10 ^ 9 \<and>
   plan_balance mint_catalog (emitted_rate (JObj [(''stamp'', JNum 0)])) ''coin'' = 0 \<and>
   tolerance < \<bar>plan_balance mint_catalog (emitted_rate (JObj [(''stamp'', JNum 0)])) ''coin''
                 - requested_target_rate mint_instance\<bar>"
proof -
  have bal: "plan_balance mint_catalog (emitted_rate (JObj [(''stamp'', JNum 0)])) ''coin'' = 0"
    by (simp add: plan_balance_def mint_catalog_def emitted_rate_def)
  have rate: "requested_target_rate mint_instance = 5 / 10 ^ 9" "target_item mint_instance = ''coin''"
    by (simp_all add: mint_instance_def)
  have out: "json_get mint_output ''status'' = Some (JStr ''ok'')"
    "json_get mint_output ''per_recipe_crafts_per_min'' = Some (JObj [(''stamp'', JNum 0)])"
    by (simp_all add: mint_output_def)
  have far: "tolerance < \<bar>0 - 5 / 10 ^ 9\<bar>" by (simp add: tolerance_def)
  show ?thesis
    unfolding bal rate mint_build1 mint_build2
    using mint_run mint_parse mint_feasible1 mint_feasible2 out far by simp
qed

subsection \<open>A target that is a raw item\<close>

lemma phase1_ignores_target_cap:
  assumes cat: "parse_catalog inp = Inr cat"
  shows "build_phase1 inp (cat\<lparr> raw_caps := AList.update (target_item inp) c (raw_caps cat) \<rparr>)
           = build_phase1 inp cat"
proof -
  note k = parse_catalog_keys [OF cat]
  let ?cat' = "cat\<lparr> raw_caps := AList.update (target_item inp) c (raw_caps cat) \<rparr>"
  have row: "make_balance_row ?cat' item = make_balance_row cat item"
    if "item \<in> set (all_items cat)" for item
  proof -
    from that k(7) have "item \<noteq> target_item inp" by auto
    then have "at_key (AList.update (target_item inp) c (raw_caps cat)) item 0
             = at_key (raw_caps cat) item 0"
      by (simp add: at_key_update)
    then show ?thesis by (simp add: make_balance_row_def cong: if_cong)
  qed
  have rows: "fold (make_balance_row ?cat') (all_items cat) a = fold (make_balance_row cat) (all_items cat) a"
    for a
    by (rule fold_cong [OF refl refl]) (simp add: row)
  show ?thesis
    by (simp add: build_phase1_def rows)
qed

lemma phase2_raw_target_row:
  assumes cat: "parse_catalog inp = Inr cat"
      and raw: "target_item inp \<in> fst ` set (raw_supply_per_min inp)"
  defines "s2 \<equiv> solver2 (build_phase2 inp cat)"
      and "j \<equiv> at_key (raw_rows cat) (target_item inp) 0"
  shows "j < length (constraints s2)"
    and "constraints s2 ! j
           = \<lparr> row_lb = - at_key (raw_caps cat) (target_item inp) 0, row_ub = 0,
               row_name = ''balance_'' @ target_item inp, coefficients = [] \<rparr>"
    and "j \<noteq> at_key (item_balance2 (build_phase2 inp cat)) (target_item inp) 0"
    and "at_key (item_balance2 (build_phase2 inp cat)) (target_item inp) 0 < length (constraints s2)"
    and "row_lb (constraints s2 ! at_key (item_balance2 (build_phase2 inp cat)) (target_item inp) 0)
           = requested_target_rate inp"
    and "row_ub (constraints s2 ! at_key (item_balance2 (build_phase2 inp cat)) (target_item inp) 0)
           = requested_target_rate inp"
proof -
  note k = parse_catalog_keys [OF cat]
  note b = phase2_balance_facts [OF cat]
  note f = phase2_solver_facts [OF cat, folded s2_def]
  let ?tgt = "target_item inp"
  let ?ks = "intermediate_items cat @ raw_items cat"
  from raw k(5) have traw: "?tgt \<in> set (raw_items cat)" by simp
  with k(7,8) have tinter: "?tgt \<notin> set (intermediate_items cat)" by simp
  from traw have mem: "?tgt \<in> set (intermediate_items cat) \<union> set (raw_items cat)" by simp
  have below: "j < target_row cat" unfolding j_def by (rule b(3) [OF mem])
  have bal: "item_balance2 (build_phase2 inp cat) = phase2_balance inp cat"
    by (simp add: build_phase2_explicit [OF cat])
  have tj: "at_key (item_balance2 (build_phase2 inp cat)) ?tgt 0 = target_row cat"
    by (simp add: bal b(2))
  from below show "j < length (constraints s2)"
    by (simp add: f(2) phase2_rows_length)
  from below show "j \<noteq> at_key (item_balance2 (build_phase2 inp cat)) ?tgt 0"
    by (simp add: tj)
  have tl: "target_row cat < length (phase2_rows inp cat)" by (simp add: phase2_rows_length)
  then show "at_key (item_balance2 (build_phase2 inp cat)) ?tgt 0 < length (constraints s2)"
    by (simp add: tj f(2))
  from f(3) [OF tl]
  show "row_lb (constraints s2 ! at_key (item_balance2 (build_phase2 inp cat)) ?tgt 0)
           = requested_target_rate inp"
    and "row_ub (constraints s2 ! at_key (item_balance2 (build_phase2 inp cat)) ?tgt 0)
           = requested_target_rate inp"
    by (simp_all add: tj phase2_rows_target)
  have nb: "j \<notin> rows_of (phase2_balance inp cat)"
  proof
    assume "j \<in> rows_of (phase2_balance inp cat)"
    then obtain k' where k': "k' \<in> fst ` set (phase2_balance inp cat)"
      and e: "j = at_key (phase2_balance inp cat) k' 0"
      by (auto simp: rows_of_def)
    show False
    proof (cases "k' = ?tgt")
      case True
      with e below show False by (simp add: b(2))
    next
      case False
      with k' b(1) have m': "k' \<in> set ?ks" by auto
      from mem have m: "?tgt \<in> set ?ks" by simp
      from e False have "at_key (raw_rows cat) ?tgt 0 = at_key (raw_rows cat) k' 0"
        by (simp add: b(2) j_def)
      then have "at_key (zip ?ks [0 ..< 0 + length ?ks]) ?tgt 0
               = at_key (zip ?ks [0 ..< 0 + length ?ks]) k' 0"
        by (simp only: raw_rows_zip)
      from at_zip_inj [OF b(4) m m' this] False show False by simp
    qed
  qed
  have nu: "j \<notin> rows_of (phase2_usage cat)"
    using phase2_usage_row_map(2) [OF cat] below by auto
  have m: "?tgt \<in> set ?ks" using mem by simp
  have "phase2_rows inp cat ! j
      = \<lparr> row_lb = - at_key (raw_caps cat) ?tgt 0, row_ub = 0,
          row_name = ''balance_'' @ ?tgt, coefficients = [] \<rparr>"
    unfolding phase2_rows_def raw_rows_def j_def
    using rows_by_key [OF b(4) m] tinter by simp
  with f(4) [OF nb nu]
  show "constraints s2 ! j
           = \<lparr> row_lb = - at_key (raw_caps cat) ?tgt 0, row_ub = 0,
               row_name = ''balance_'' @ ?tgt, coefficients = [] \<rparr>"
    by simp
qed

lemma keeps_rows_refl: "keeps_rows s s"
  by (simp add: keeps_rows_def)

lemma keeps_rows_trans: "keeps_rows s s' \<Longrightarrow> keeps_rows s' s'' \<Longrightarrow> keeps_rows s s''"
  by (auto simp: keeps_rows_def)

lemma same_frame_keeps: "same_frame s s' \<Longrightarrow> keeps_rows s s'"
proof -
  assume f: "same_frame s s'"
  have "row_lb (constraints s' ! j) = row_lb (constraints s ! j) \<and>
        row_ub (constraints s' ! j) = row_ub (constraints s ! j) \<and>
        row_name (constraints s' ! j) = row_name (constraints s ! j)"
    if j: "j < length (constraints s)" for j
  proof -
    from f have l: "length (constraints s') = length (constraints s)"
      and lb: "map row_lb (constraints s') = map row_lb (constraints s)"
      and ub: "map row_ub (constraints s') = map row_ub (constraints s)"
      and nm: "map row_name (constraints s') = map row_name (constraints s)"
      by (simp_all add: same_frame_def)
    from j l have j': "j < length (constraints s')" by simp
    from arg_cong [OF lb, of "\<lambda>xs. xs ! j"] arg_cong [OF ub, of "\<lambda>xs. xs ! j"]
      arg_cong [OF nm, of "\<lambda>xs. xs ! j"] j j'
    show ?thesis by simp
  qed
  with f show ?thesis by (simp add: keeps_rows_def same_frame_def)
qed

lemma make_usage_rows_keep: "keeps_rows s (fst (fold make_usage_row caps (s, rows)))"
proof (induction caps arbitrary: s rows)
  case Nil
  show ?case by (simp add: keeps_rows_refl)
next
  case (Cons p caps)
  obtain nm cap where p: "p = (nm, cap)" by (cases p)
  let ?s1 = "s\<lparr> constraints := constraints s
                @ [\<lparr> row_lb = 0, row_ub = cap, row_name = ''cap_'' @ nm, coefficients = [] \<rparr>] \<rparr>"
  have step: "make_usage_row p (s, rows) = (?s1, AList.update nm (length (constraints s)) rows)"
    by (simp add: p make_usage_row_def MakeRowConstraint_def)
  have one: "keeps_rows s ?s1" by (simp add: keeps_rows_def nth_append)
  have "keeps_rows ?s1 (fst (fold make_usage_row caps (?s1, AList.update nm (length (constraints s)) rows)))"
    by (rule Cons.IH)
  with one show ?case
    unfolding fold_simps step by (rule keeps_rows_trans)
qed

lemma set_item_balances_frame: "same_frame s (set_item_balances balance x nm r s)"
  unfolding set_item_balances_loops
  by (rule same_frame_trans [OF item_loop_frame item_loop_frame])

lemma phase1_fold_frame:
  "same_frame s
     (fold (\<lambda>(nm, r) s. set_item_balances balance x nm r (set_machine_usage usage x nm r s)) rs s)"
proof (induction rs arbitrary: s)
  case Nil
  show ?case by (simp add: same_frame_refl)
next
  case (Cons p rs)
  obtain nm r where p: "p = (nm, r)" by (cases p)
  let ?s1 = "set_item_balances balance x nm r (set_machine_usage usage x nm r s)"
  have one: "same_frame s ?s1"
    by (rule same_frame_trans [OF set_machine_usage_frame set_item_balances_frame])
  have "same_frame ?s1
     (fold (\<lambda>(nm, r) s. set_item_balances balance x nm r (set_machine_usage usage x nm r s)) rs ?s1)"
    by (rule Cons.IH)
  with one show ?case
    by (simp add: p) (rule same_frame_trans)
qed

lemma SetMaximization_frame: "same_frame s (SetMaximization s)"
  by (simp add: same_frame_def SetMaximization_def)

lemma phase1_target_row:
  fixes inp cat
  defines "p1 \<equiv> build_phase1 inp cat"
  shows "at_key (item_balance p1) (target_item inp) 0 < length (constraints (solver p1))"
    and "row_lb (constraints (solver p1) ! at_key (item_balance p1) (target_item inp) 0) = 0"
    and "row_ub (constraints (solver p1) ! at_key (item_balance p1) (target_item inp) 0) = 0"
    and "row_name (constraints (solver p1) ! at_key (item_balance p1) (target_item inp) 0)
           = ''balance_'' @ target_item inp"
proof -
  define a where "a = fold make_x (recipe_map cat) (CreateSolver, [])"
  define b where "b = MakeNumVar 0 infinity ''target_rate'' (fst a)"
  define c where "c = fold (make_balance_row cat) (all_items cat) (snd b, [])"
  define n where "n = length (constraints (fst c))"
  define s4 where "s4 = (fst c)\<lparr> constraints := constraints (fst c)
      @ [\<lparr> row_lb = 0, row_ub = 0, row_name = ''balance_'' @ target_item inp, coefficients = [] \<rparr>] \<rparr>"
  define s5 where "s5 = SetCoefficient n (fst b) (- 1) s4"
  define d where "d = fold make_usage_row (machine_caps cat) (s5, [])"
  define s7 where "s7 = fold (\<lambda>(nm, r) s. set_item_balances (AList.update (target_item inp) n (snd c))
                                (snd a) nm r (set_machine_usage (snd d) (snd a) nm r s))
                          (recipe_map cat) (fst d)"
  have p1: "p1 = \<lparr> solver = SetMaximization (SetObjectiveCoefficient (fst b) 1 s7),
                   x_var = snd a, T_var = fst b,
                   item_balance = AList.update (target_item inp) n (snd c),
                   machine_usage = snd d \<rparr>"
    unfolding p1_def build_phase1_def Let_def split_beta MakeRowConstraint_def
      a_def b_def c_def n_def s4_def s5_def d_def s7_def
    by simp
  have at: "at_key (item_balance p1) (target_item inp) 0 = n"
    by (simp add: p1 at_key_update)
  have k45: "keeps_rows s4 s5"
    unfolding s5_def by (rule same_frame_keeps [OF SetCoefficient_frame])
  have k5d: "keeps_rows s5 (fst d)"
    unfolding d_def by (rule make_usage_rows_keep)
  have kd7: "keeps_rows (fst d) s7"
    unfolding s7_def by (rule same_frame_keeps [OF phase1_fold_frame])
  have k78: "keeps_rows s7 (solver p1)"
    unfolding p1 phase1.simps
    by (rule same_frame_keeps
        [OF same_frame_trans [OF SetObjectiveCoefficient_frame SetMaximization_frame]])
  have k: "keeps_rows s4 (solver p1)"
    by (rule keeps_rows_trans [OF k45 keeps_rows_trans [OF k5d keeps_rows_trans [OF kd7 k78]]])
  have n4: "n < length (constraints s4)" by (simp add: s4_def n_def)
  have row: "constraints s4 ! n
      = \<lparr> row_lb = 0, row_ub = 0, row_name = ''balance_'' @ target_item inp, coefficients = [] \<rparr>"
    by (simp add: s4_def n_def)
  from k n4 show "at_key (item_balance p1) (target_item inp) 0 < length (constraints (solver p1))"
    unfolding at by (simp add: keeps_rows_def)
  from k n4 row
  show "row_lb (constraints (solver p1) ! at_key (item_balance p1) (target_item inp) 0) = 0"
    and "row_ub (constraints (solver p1) ! at_key (item_balance p1) (target_item inp) 0) = 0"
    and "row_name (constraints (solver p1) ! at_key (item_balance p1) (target_item inp) 0)
           = ''balance_'' @ target_item inp"
    unfolding at by (simp_all add: keeps_rows_def)
qed

lemma recycle_parse: "parse_catalog recycle_instance = Inr recycle_catalog"
  by (simp add: recycle_instance_def recycle_catalog_def catalog_eval)

lemma recycle_build1: "build_phase1 recycle_instance recycle_catalog = recycle_phase1"
  by (simp add: build_phase1_def recycle_instance_def recycle_catalog_def recycle_phase1_def lp_eval)

lemma recycle_build2: "build_phase2 recycle_instance recycle_catalog = recycle_phase2"
  by (simp add: build_phase2_def recycle_instance_def recycle_catalog_def recycle_phase2_def lp_eval)

lemma recycle_feasible1:
  "lp_feasible (solver recycle_phase1) (recycle_oracle (solver recycle_phase1))"
  by (simp add: lp_feasible_def row_value_def recycle_phase1_def recycle_oracle_def at_key_def)

lemma recycle_feasible2:
  "lp_feasible (solver2 recycle_phase2) (recycle_oracle (solver2 recycle_phase2))"
  by (simp add: lp_feasible_def row_value_def recycle_phase2_def recycle_oracle_def at_key_def)

lemma recycle_run:
  "factory_main recycle_oracle (Document recycle_instance) =
     \<lparr> stdout = [recycle_output], stderr = [], solver_runs = 2, exit_code = 0 \<rparr>"
proof -
  have p1: "solved (result_status (recycle_oracle (solver recycle_phase1)))"
    "solution_value (recycle_oracle (solver recycle_phase1)) (T_var recycle_phase1) = 400"
    by (simp_all add: recycle_oracle_def recycle_phase1_def solved_def)
  have rate: "requested_target_rate recycle_instance = 1" by (simp add: recycle_instance_def)
  have p2: "solved (result_status (recycle_oracle (solver2 recycle_phase2)))"
    by (simp add: recycle_oracle_def recycle_phase2_def solved_def)
  have out: "factory_ok_result recycle_catalog recycle_phase2 (recycle_oracle (solver2 recycle_phase2))
      = recycle_output"
    by (simp add: factory_ok_result_def recycle_catalog_def recycle_phase2_def recycle_oracle_def
        recycle_output_def recycle_crafts_def emit_recipe_def emit_raw_def number_map_def
        at_key_def count_key_def tolerance_def Let_def)
  show ?thesis
    by (simp add: factory_main_def solve_factory_def recycle_parse recycle_build1 recycle_build2
        p1 p2 rate out tolerance_def effects.defs Let_def)
qed

lemma recycle_facts:
  "target_item recycle_instance = ''acid''"
  "requested_target_rate recycle_instance = 1"
  "raw_supply_per_min recycle_instance = [(''acid'', 0)]"
  "raw_caps recycle_catalog = [(''acid'', 0)]"
  "json_get recycle_output ''status'' = Some (JStr ''ok'')"
  "json_get recycle_output ''per_recipe_crafts_per_min'' = Some recycle_crafts"
  "json_get recycle_output ''raw_consumption_per_min'' = Some (JObj [(''acid'', JNum 0)])"
  by (simp_all add: recycle_instance_def recycle_catalog_def recycle_output_def)

lemma recycle_draw:
  "plan_balance recycle_catalog (emitted_rate recycle_crafts) ''acid'' = - (1 / 40)"
  by (simp add: plan_balance_def recycle_catalog_def emitted_rate_def recycle_crafts_def
      net_output_def at_key_def)

lemma overdrawn_plan:
  "\<exists>inp' cat' oracle' out' crafts cons.
     parse_catalog inp' = Inr cat' \<and>
     target_item inp' \<in> fst ` set (raw_supply_per_min inp') \<and>
     0 \<le> requested_target_rate inp' \<and>
     0 \<le> at_key (raw_caps cat') (target_item inp') 0 \<and>
     stdout (factory_main oracle' (Document inp')) = [out'] \<and>
     json_get out' ''status'' = Some (JStr ''ok'') \<and>
     lp_feasible (solver (build_phase1 inp' cat')) (oracle' (solver (build_phase1 inp' cat'))) \<and>
     lp_feasible (solver2 (build_phase2 inp' cat')) (oracle' (solver2 (build_phase2 inp' cat'))) \<and>
     json_get out' ''per_recipe_crafts_per_min'' = Some crafts \<and>
     at_key (raw_caps cat') (target_item inp') 0
       < - plan_balance cat' (emitted_rate crafts) (target_item inp') \<and>
     json_get out' ''raw_consumption_per_min'' = Some cons \<and>
     json_get cons (target_item inp') = Some (JNum 0)"
proof -
  have run: "stdout (factory_main recycle_oracle (Document recycle_instance)) = [recycle_output]"
    by (simp add: recycle_run)
  have f1: "lp_feasible (solver (build_phase1 recycle_instance recycle_catalog))
              (recycle_oracle (solver (build_phase1 recycle_instance recycle_catalog)))"
    unfolding recycle_build1 by (rule recycle_feasible1)
  have f2: "lp_feasible (solver2 (build_phase2 recycle_instance recycle_catalog))
              (recycle_oracle (solver2 (build_phase2 recycle_instance recycle_catalog)))"
    unfolding recycle_build2 by (rule recycle_feasible2)
  have cap: "at_key (raw_caps recycle_catalog) (target_item recycle_instance) 0 = 0"
    by (simp add: recycle_facts at_key_def)
  have draw: "at_key (raw_caps recycle_catalog) (target_item recycle_instance) 0
       < - plan_balance recycle_catalog (emitted_rate recycle_crafts) (target_item recycle_instance)"
    unfolding cap by (simp add: recycle_facts recycle_draw)
  have zero: "json_get (JObj [(''acid'', JNum 0)]) (target_item recycle_instance) = Some (JNum 0)"
    by (simp add: recycle_facts)
  have raw: "target_item recycle_instance \<in> fst ` set (raw_supply_per_min recycle_instance)"
    by (simp add: recycle_facts)
  have rate: "0 \<le> requested_target_rate recycle_instance" by (simp add: recycle_facts)
  have cap0: "0 \<le> at_key (raw_caps recycle_catalog) (target_item recycle_instance) 0"
    by (simp add: cap)
  from recycle_parse raw rate cap0 run recycle_facts(5) f1 f2 recycle_facts(6) draw
    recycle_facts(7) zero
  show ?thesis by blast
qed

text \<open>
  Claim C10. Let the target item be a key of \<open>limits.raw_supply_per_min\<close>. In Phase 1
  the model is the same whatever the cap of the target is, and the row that
  \<open>item_balance\<close> holds for the target has the bounds \<open>[0, 0]\<close> of the target-balance row:
  the target has left \<open>all_items\<close> before the rows are made, so that row is the only row
  of the target. In Phase 2 the model has a row \<open>balance_<target>\<close> with the bounds
  \<open>[- cap, 0]\<close> and no coefficient, made in the loop over the raw items; it is not the
  row that \<open>item_balance2\<close> holds for the target, whose two bounds are the requested
  rate. When the tool prints status \<open>ok\<close> for a requested rate that is not negative and
  the solver's answer satisfies the Phase-2 model, \<open>raw_consumption_per_min\<close> gives the
  target 0. And there is a factory, with a cap and a requested rate that are not
  negative, on which the tool prints status \<open>ok\<close> with a plan whose net draw on the
  target, the negated balance of the target under the printed rates, exceeds the cap,
  and reports 0 for it.
\<close>

theorem raw_target_cap:
  assumes cat: "parse_catalog inp = Inr cat"
      and raw: "target_item inp \<in> fst ` set (raw_supply_per_min inp)"
  shows "(\<forall>c. build_phase1 inp (cat\<lparr> raw_caps := AList.update (target_item inp) c (raw_caps cat) \<rparr>)
               = build_phase1 inp cat) \<and>
         row_lb (constraints (solver (build_phase1 inp cat))
                   ! at_key (item_balance (build_phase1 inp cat)) (target_item inp) 0) = 0 \<and>
         row_ub (constraints (solver (build_phase1 inp cat))
                   ! at_key (item_balance (build_phase1 inp cat)) (target_item inp) 0) = 0 \<and>
         (\<exists>j < length (constraints (solver2 (build_phase2 inp cat))).
            constraints (solver2 (build_phase2 inp cat)) ! j
              = \<lparr> row_lb = - at_key (raw_caps cat) (target_item inp) 0, row_ub = 0,
                  row_name = ''balance_'' @ target_item inp, coefficients = [] \<rparr> \<and>
            j \<noteq> at_key (item_balance2 (build_phase2 inp cat)) (target_item inp) 0) \<and>
         row_lb (constraints (solver2 (build_phase2 inp cat))
                   ! at_key (item_balance2 (build_phase2 inp cat)) (target_item inp) 0)
           = requested_target_rate inp \<and>
         row_ub (constraints (solver2 (build_phase2 inp cat))
                   ! at_key (item_balance2 (build_phase2 inp cat)) (target_item inp) 0)
           = requested_target_rate inp \<and>
         (\<forall>out. stdout (factory_main oracle (Document inp)) = [out] \<longrightarrow>
                json_get out ''status'' = Some (JStr ''ok'') \<longrightarrow>
                lp_feasible (solver2 (build_phase2 inp cat)) (oracle (solver2 (build_phase2 inp cat))) \<longrightarrow>
                0 \<le> requested_target_rate inp \<longrightarrow>
                (\<exists>cons. json_get out ''raw_consumption_per_min'' = Some cons \<and>
                   json_get cons (target_item inp) = Some (JNum 0))) \<and>
         (\<exists>inp' cat' oracle' out' crafts cons.
            parse_catalog inp' = Inr cat' \<and>
            target_item inp' \<in> fst ` set (raw_supply_per_min inp') \<and>
            0 \<le> requested_target_rate inp' \<and>
            0 \<le> at_key (raw_caps cat') (target_item inp') 0 \<and>
            stdout (factory_main oracle' (Document inp')) = [out'] \<and>
            json_get out' ''status'' = Some (JStr ''ok'') \<and>
            lp_feasible (solver (build_phase1 inp' cat')) (oracle' (solver (build_phase1 inp' cat'))) \<and>
            lp_feasible (solver2 (build_phase2 inp' cat')) (oracle' (solver2 (build_phase2 inp' cat'))) \<and>
            json_get out' ''per_recipe_crafts_per_min'' = Some crafts \<and>
            at_key (raw_caps cat') (target_item inp') 0
              < - plan_balance cat' (emitted_rate crafts) (target_item inp') \<and>
            json_get out' ''raw_consumption_per_min'' = Some cons \<and>
            json_get cons (target_item inp') = Some (JNum 0))"
proof -
  let ?p = "build_phase2 inp cat"
  let ?r = "oracle (solver2 ?p)"
  note row = phase2_raw_target_row [OF cat raw]
  note row1 = phase1_target_row [of inp cat]
  have one: "\<forall>c. build_phase1 inp (cat\<lparr> raw_caps := AList.update (target_item inp) c (raw_caps cat) \<rparr>)
               = build_phase1 inp cat"
    by (simp add: phase1_ignores_target_cap [OF cat])
  have two: "\<exists>j < length (constraints (solver2 ?p)).
            constraints (solver2 ?p) ! j
              = \<lparr> row_lb = - at_key (raw_caps cat) (target_item inp) 0, row_ub = 0,
                  row_name = ''balance_'' @ target_item inp, coefficients = [] \<rparr> \<and>
            j \<noteq> at_key (item_balance2 ?p) (target_item inp) 0"
    using row(1,2,3) by blast
  have three: "\<exists>cons. json_get out ''raw_consumption_per_min'' = Some cons \<and>
                   json_get cons (target_item inp) = Some (JNum 0)"
    if run: "stdout (factory_main oracle (Document inp)) = [out]"
      and ok: "json_get out ''status'' = Some (JStr ''ok'')"
      and feas: "lp_feasible (solver2 ?p) ?r"
      and rate: "0 \<le> requested_target_rate inp" for out
  proof -
    from factory_ok_path [OF run ok] cat have out: "out = factory_ok_result cat ?p ?r"
      by auto
    note lp = phase2_feasible_balances [OF cat feas]
    have c: "consumption ?p ?r (target_item inp) = - requested_target_rate inp"
      by (simp add: consumption_def lp(3))
    have "\<not> - requested_target_rate inp > tolerance"
      using rate by (simp add: tolerance_def)
    with ok_cons_value [OF cat raw, of ?p ?r] show ?thesis
      unfolding out c by simp
  qed
  from one row1(2,3) two row(5,6) three overdrawn_plan show ?thesis by blast
qed

theorem raw_target_cap_witness:
  "build_phase1 recycle_instance (recycle_catalog\<lparr> raw_caps := [(''acid'', 7)] \<rparr>)
     = build_phase1 recycle_instance recycle_catalog \<and>
   row_lb (constraints (solver (build_phase1 recycle_instance recycle_catalog))
             ! at_key (item_balance (build_phase1 recycle_instance recycle_catalog)) ''acid'' 0) = 0 \<and>
   row_ub (constraints (solver (build_phase1 recycle_instance recycle_catalog))
             ! at_key (item_balance (build_phase1 recycle_instance recycle_catalog)) ''acid'' 0) = 0 \<and>
   (\<exists>j < length (constraints (solver2 (build_phase2 recycle_instance recycle_catalog))).
      constraints (solver2 (build_phase2 recycle_instance recycle_catalog)) ! j
        = \<lparr> row_lb = 0, row_ub = 0, row_name = ''balance_acid'', coefficients = [] \<rparr> \<and>
      j \<noteq> at_key (item_balance2 (build_phase2 recycle_instance recycle_catalog)) ''acid'' 0) \<and>
   stdout (factory_main recycle_oracle (Document recycle_instance)) = [recycle_output] \<and>
   json_get recycle_output ''status'' = Some (JStr ''ok'') \<and>
   json_get recycle_output ''per_recipe_crafts_per_min'' = Some recycle_crafts \<and>
   plan_balance recycle_catalog (emitted_rate recycle_crafts) ''acid'' = - (1 / 40) \<and>
   raw_caps recycle_catalog = [(''acid'', 0)] \<and>
   (\<exists>cons. json_get recycle_output ''raw_consumption_per_min'' = Some cons \<and>
      json_get cons ''acid'' = Some (JNum 0))"
proof -
  have raw: "target_item recycle_instance \<in> fst ` set (raw_supply_per_min recycle_instance)"
    by (simp add: recycle_facts)
  have run: "stdout (factory_main recycle_oracle (Document recycle_instance)) = [recycle_output]"
    by (simp add: recycle_run)
  have feas: "lp_feasible (solver2 (build_phase2 recycle_instance recycle_catalog))
                (recycle_oracle (solver2 (build_phase2 recycle_instance recycle_catalog)))"
    unfolding recycle_build2 by (rule recycle_feasible2)
  have rate: "0 \<le> requested_target_rate recycle_instance" by (simp add: recycle_facts)
  have upd: "AList.update ''acid'' 7 [(''acid'', 0::real)] = [(''acid'', 7)]" by simp
  have at: "at_key [(''acid'', 0::real)] ''acid'' 0 = 0" by (simp add: at_key_def)
  note here = raw_target_cap [OF recycle_parse raw, of recycle_oracle]
  from here have a: "build_phase1 recycle_instance
        (recycle_catalog\<lparr> raw_caps := AList.update (target_item recycle_instance) 7
                                        (raw_caps recycle_catalog) \<rparr>)
     = build_phase1 recycle_instance recycle_catalog"
    by blast
  from here have b: "row_lb (constraints (solver (build_phase1 recycle_instance recycle_catalog))
             ! at_key (item_balance (build_phase1 recycle_instance recycle_catalog))
                 (target_item recycle_instance) 0) = 0"
    and c: "row_ub (constraints (solver (build_phase1 recycle_instance recycle_catalog))
             ! at_key (item_balance (build_phase1 recycle_instance recycle_catalog))
                 (target_item recycle_instance) 0) = 0"
    by blast+
  from here have d: "\<exists>j < length (constraints (solver2 (build_phase2 recycle_instance recycle_catalog))).
      constraints (solver2 (build_phase2 recycle_instance recycle_catalog)) ! j
        = \<lparr> row_lb = - at_key (raw_caps recycle_catalog) (target_item recycle_instance) 0,
            row_ub = 0, row_name = ''balance_'' @ target_item recycle_instance,
            coefficients = [] \<rparr> \<and>
      j \<noteq> at_key (item_balance2 (build_phase2 recycle_instance recycle_catalog))
              (target_item recycle_instance) 0"
    by blast
  from here run recycle_facts(5) feas rate
  have e: "\<exists>cons. json_get recycle_output ''raw_consumption_per_min'' = Some cons \<and>
      json_get cons (target_item recycle_instance) = Some (JNum 0)"
    by blast
  from a b c d e run recycle_draw show ?thesis
    unfolding recycle_facts upd at by simp
qed

section \<open>Input that is not JSON\<close>

text \<open>
  Claim C3. When standard input is not well-formed JSON, each tool writes the parser's
  message to standard error and nothing to standard output; but \<open>solve_factory\<close> and
  \<open>solve_belts\<close> catch the parse error and return, so \<open>main\<close> returns 0 in both tools,
  where an exception that reaches \<open>main\<close> makes it return 1.
\<close>

theorem parse_error_exit_code:
  "belts_main flow_oracle (NotJson what) =
     \<lparr> stdout = [], stderr = [''JSON parse error: '' @ what], solver_runs = 0, exit_code = 0 \<rparr> \<and>
   factory_main lp_oracle (NotJson what) =
     \<lparr> stdout = [], stderr = [''JSON parse error: '' @ what], solver_runs = 0, exit_code = 0 \<rparr>"
  by (simp add: belts_main_def solve_belts_def factory_main_def solve_factory_def effects.defs)

end
